theory Spec2Isabelle
  imports Complex_Main "HOL-Library.List_Lexorder" "HOL-Library.Char_ord"
begin

section \<open>The git-graph model of the blog: data\<close>

text \<open>
  The layout constants object \<open>LAYOUT_CONSTANTS\<close>. The function body reads its fields;
  the body is written over a value of this record (\<open>mapPostsToGraphWith\<close>) and the
  exported function instantiates it with the constants of the source. JavaScript numbers
  are modelled as exact reals: the coordinates the code computes from the constants of the
  source are small integers and halves of them.
\<close>

record Layout =
  ROW_HEIGHT :: real
  PADDING_TOP :: real
  PADDING_BOTTOM :: real
  MAIN_X :: real
  BRANCH_SPACING :: real
  LABEL_WIDTH :: real

definition LAYOUT_CONSTANTS :: Layout where
  "LAYOUT_CONSTANTS =
     \<lparr>ROW_HEIGHT = 48, PADDING_TOP = 24, PADDING_BOTTOM = 24,
      MAIN_X = 150, BRANCH_SPACING = 80, LABEL_WIDTH = 100\<rparr>"

text \<open>
  The input record, \<open>CoreContent<Blog>\<close>, with the fields the function reads. Optional
  fields are options: \<open>tags\<close> and \<open>draft\<close> may be undefined.
\<close>

record Post =
  slug :: string
  title :: string
  summary :: "string option"
  date :: string
  tags :: "string list option"
  draft :: "bool option"

record Branch =
  b_id :: string
  b_name :: string
  b_color :: string
  b_x :: real

datatype SeparatorKind = Year | Month

datatype GraphNode =
    is_commit: CommitNode (n_id: string) (n_branch: string) (n_slug: string)
      (n_title: string) (n_summary: "string option") (n_date: string)
      (n_x: real) (n_y: real)
      (n_testid: string) (n_data_slug: string) (n_data_branch: string)
  | is_merge: MergeNode (n_id: string) (n_branch: string) (n_slug: string)
      (n_date: string) (n_x: real) (n_y: real)
  | is_separator: SeparatorNode (n_id: string) (n_label: string) (n_kind: SeparatorKind)
      (n_x: real) (n_y: real)
  | is_today: TodayNode (n_id: string) (n_date: string) (n_x: real) (n_y: real)

datatype EdgeType = MergeConnector | Rail

record Edge =
  e_id :: string
  e_from :: string
  e_to :: string
  e_type :: EdgeType

record GraphModel =
  branches :: "Branch list"
  nodes :: "GraphNode list"
  edges :: "Edge list"

section \<open>What the function takes from its host\<close>

text \<open>
  The function calls \<open>slug\<close> of the github-slugger package, the string methods
  \<open>toLowerCase\<close> and \<open>localeCompare\<close>, and the \<open>Date\<close> object: none of them is code
  of this repository, so they are parameters of the model, and the theorems hold for
  every behaviour of them (the comparison is assumed to be a consistent one where a
  theorem speaks of the sort order). Dates are read through three observations of
  \<open>new Date(s)\<close> for a date string \<open>s\<close>: the calendar year, the month index, and the
  timestamp after \<open>setHours(0, 0, 0, 0)\<close>. The current day, which the source reads from
  the clock, is the timestamp \<open>js_today\<close> (already set to the start of the day) and its
  ISO date \<open>js_todayISO\<close>. Date strings are assumed to parse: an invalid date (NaN) is
  outside the model.
\<close>

record Host =
  js_slug :: "string \<Rightarrow> string"
  js_toLowerCase :: "string \<Rightarrow> string"
  js_localeCompare :: "string \<Rightarrow> string \<Rightarrow> int"
  js_getFullYear :: "string \<Rightarrow> int"
  js_getMonth :: "string \<Rightarrow> nat"
  js_startOfDay :: "string \<Rightarrow> int"
  js_today :: int
  js_todayISO :: string

section \<open>Strings of numbers\<close>

text \<open>\<open>String(n)\<close> and a number in a template literal, for an integer.\<close>

definition digit_char :: "nat \<Rightarrow> char" where
  "digit_char d = char_of (48 + d)"

fun string_of_nat :: "nat \<Rightarrow> string" where
  "string_of_nat n =
     (if n < 10 then [digit_char n]
      else string_of_nat (n div 10) @ [digit_char (n mod 10)])"

definition String_int :: "int \<Rightarrow> string" where
  "String_int i = (if i < 0 then CHR ''-'' # string_of_nat (nat (- i)) else string_of_nat (nat i))"

section \<open>Arrays, sets and maps of the host language\<close>

text \<open>
  \<open>Set.add\<close> on a set that keeps its insertion order: a list without duplicates.
\<close>

definition set_add :: "'a list \<Rightarrow> 'a \<Rightarrow> 'a list" where
  "set_add s a = (if a \<in> set s then s else s @ [a])"

text \<open>
  \<open>Array.prototype.sort\<close> with a comparison function: a stable sort, here by insertion.
  For a consistent comparison every stable sort gives this result.
\<close>

fun insert_by :: "('a \<Rightarrow> 'a \<Rightarrow> int) \<Rightarrow> 'a \<Rightarrow> 'a list \<Rightarrow> 'a list" where
  "insert_by c a [] = [a]"
| "insert_by c a (b # bs) = (if c a b \<le> 0 then a # b # bs else b # insert_by c a bs)"

definition array_sort :: "('a \<Rightarrow> 'a \<Rightarrow> int) \<Rightarrow> 'a list \<Rightarrow> 'a list" where
  "array_sort c xs = foldr (insert_by c) xs []"

text \<open>\<open>new Map(pairs)\<close>: a later pair with the same key replaces an earlier one.\<close>

definition new_Map :: "('k \<times> 'v) list \<Rightarrow> ('k \<rightharpoonup> 'v)" where
  "new_Map kvs = map_of (rev kvs)"

section \<open>The function\<close>

definition colors :: "string list" where
  "colors = [''#3b82f6'', ''#10b981'', ''#f59e0b'', ''#ef4444'',
             ''#8b5cf6'', ''#ec4899'', ''#06b6d4'', ''#f97316'']"

definition getBranchColor :: "nat \<Rightarrow> string" where
  "getBranchColor index = colors ! (index mod length colors)"

definition monthNames :: "string list" where
  "monthNames = [''Jan'', ''Feb'', ''Mar'', ''Apr'', ''May'', ''Jun'',
                 ''Jul'', ''Aug'', ''Sep'', ''Oct'', ''Nov'', ''Dec'']"

text \<open>\<open>monthNames[month]\<close> in a template literal; out of range it prints undefined.\<close>

definition monthName :: "nat \<Rightarrow> string" where
  "monthName month = (if month < length monthNames then monthNames ! month else ''undefined'')"

text \<open>\<open>!post.draft\<close>\<close>

definition isPublished :: "Post \<Rightarrow> bool" where
  "isPublished post = (draft post \<noteq> Some True)"

text \<open>\<open>post.tags && post.tags.length > 0 ? post.tags[0] : null\<close>\<close>

definition primaryTagOf :: "Post \<Rightarrow> string option" where
  "primaryTagOf post =
     (case tags post of None \<Rightarrow> None | Some [] \<Rightarrow> None | Some (t # ts) \<Rightarrow> Some t)"

text \<open>The first sweep: the set of primary tags, in the order of their first use.\<close>

definition collectTags :: "Post list \<Rightarrow> string list" where
  "collectTags publishedPosts =
     fold (\<lambda>post tagSet. case primaryTagOf post of None \<Rightarrow> tagSet | Some t \<Rightarrow> set_add tagSet t)
       publishedPosts []"

definition sortTags :: "Host \<Rightarrow> string list \<Rightarrow> string list" where
  "sortTags h tagSet =
     array_sort (\<lambda>a b. js_localeCompare h (js_toLowerCase h a) (js_toLowerCase h b)) tagSet"

definition mainBranch :: "Layout \<Rightarrow> Branch" where
  "mainBranch L = \<lparr>b_id = ''main'', b_name = ''main'', b_color = ''#6b7280'', b_x = MAIN_X L\<rparr>"

definition tagBranch :: "Layout \<Rightarrow> Host \<Rightarrow> nat \<Rightarrow> nat \<times> string \<Rightarrow> Branch" where
  "tagBranch L h len = (\<lambda>(index, tag).
     \<lparr>b_id = js_slug h tag, b_name = tag, b_color = getBranchColor index,
      b_x = MAIN_X L - (real len - real index) * BRANCH_SPACING L\<rparr>)"

definition makeBranches :: "Layout \<Rightarrow> Host \<Rightarrow> string list \<Rightarrow> Branch list" where
  "makeBranches L h sortedTags =
     mainBranch L # map (tagBranch L h (length sortedTags)) (enumerate 0 sortedTags)"

text \<open>
  The body of the first \<open>forEach\<close> over the published posts: the state is the pair of
  the arrays \<open>nodes\<close> and \<open>edges\<close>, and \<open>push\<close> appends. A string is truthy when it is
  not empty.
\<close>

definition rowY :: "Layout \<Rightarrow> nat \<Rightarrow> real" where
  "rowY L index = PADDING_TOP L + real index * ROW_HEIGHT L"

definition commitStep ::
  "Layout \<Rightarrow> Host \<Rightarrow> (string \<rightharpoonup> Branch) \<Rightarrow> nat \<times> Post \<Rightarrow>
   GraphNode list \<times> Edge list \<Rightarrow> GraphNode list \<times> Edge list" where
  "commitStep L h branchMap = (\<lambda>(index, post) (nodes, edges).
     let primaryTag = primaryTagOf post;
         truthy = (case primaryTag of None \<Rightarrow> False | Some t \<Rightarrow> t \<noteq> []);
         branchId = (case primaryTag of None \<Rightarrow> ''main''
                     | Some t \<Rightarrow> if t \<noteq> [] then js_slug h t else ''main'');
         branch = branchMap branchId;
         y = rowY L index
     in case (if truthy then branch else None) of
          Some br \<Rightarrow>
            (let commitId = ''commit-'' @ branchId @ ''-'' @ slug post;
                 mergeId = ''merge-'' @ slug post
             in (nodes @
                   [CommitNode commitId branchId (slug post) (title post) (summary post)
                      (date post) (b_x br) y ''git-commit-node'' (slug post) branchId,
                    MergeNode mergeId ''main'' (slug post) (date post) (MAIN_X L) y],
                 edges @
                   [\<lparr>e_id = ''edge-'' @ commitId @ ''-'' @ mergeId, e_from = commitId,
                     e_to = mergeId, e_type = MergeConnector\<rparr>]))
        | None \<Rightarrow>
            (let commitId = ''commit-main-'' @ slug post
             in (nodes @
                   [CommitNode commitId ''main'' (slug post) (title post) (summary post)
                      (date post) (MAIN_X L) y ''git-commit-node'' (slug post) ''main''],
                 edges)))"

text \<open>
  The body of the second \<open>forEach\<close>: the state is \<open>nodes\<close> with the variables
  \<open>lastYear\<close> and \<open>lastMonth\<close> (null at first).
\<close>

definition separatorStep ::
  "Layout \<Rightarrow> Host \<Rightarrow> nat \<times> Post \<Rightarrow>
   GraphNode list \<times> int option \<times> nat option \<Rightarrow> GraphNode list \<times> int option \<times> nat option" where
  "separatorStep L h = (\<lambda>(index, post) (nodes, lastYear, lastMonth).
     let year = js_getFullYear h (date post);
         month = js_getMonth h (date post);
         y = rowY L index;
         nodes1 =
           (if index > 0 \<and> lastYear \<noteq> None \<and> Some year \<noteq> lastYear
            then nodes @ [SeparatorNode (''separator-year-'' @ String_int year)
                            (String_int year) Year 0 (y - ROW_HEIGHT L / 2)]
            else nodes);
         nodes2 =
           (if index > 0 \<and> lastMonth \<noteq> None \<and> Some month \<noteq> lastMonth \<and> Some year = lastYear
            then nodes1 @ [SeparatorNode
                             (''separator-month-'' @ String_int year @ ''-'' @ string_of_nat month)
                             (monthName month @ '' '' @ String_int year) Month 0
                             (y - ROW_HEIGHT L / 2)]
            else nodes1)
     in (nodes2, Some year, Some month))"

text \<open>
  The \<open>for\<close> loop that looks for the first post on or before today, from index \<open>i\<close>;
  \<open>None\<close> is the null that \<open>todayY\<close> keeps when the loop ends without a break.
\<close>

fun findTodayY :: "Layout \<Rightarrow> Host \<Rightarrow> nat \<Rightarrow> Post list \<Rightarrow> real option" where
  "findTodayY L h i [] = None"
| "findTodayY L h i (post # rest) =
     (if js_startOfDay h (date post) \<le> js_today h then Some (rowY L i)
      else findTodayY L h (Suc i) rest)"

definition computeTodayY :: "Layout \<Rightarrow> Host \<Rightarrow> Post list \<Rightarrow> real option" where
  "computeTodayY L h publishedPosts =
     (case publishedPosts of
        newestPost # rest \<Rightarrow>
          if js_today h > js_startOfDay h (date newestPost)
          then findTodayY L h 0 publishedPosts
          else Some (PADDING_TOP L)
      | [] \<Rightarrow> Some (PADDING_TOP L))"

definition todayStep :: "Host \<Rightarrow> real option \<Rightarrow> GraphNode list \<Rightarrow> GraphNode list" where
  "todayStep h todayY = (\<lambda>nodes.
     case todayY of
       Some ty \<Rightarrow>
         if ty > 0 then nodes @ [TodayNode ''today-marker'' (js_todayISO h) 0 ty] else nodes
     | None \<Rightarrow> nodes)"

definition mapPostsToGraphWith :: "Layout \<Rightarrow> Host \<Rightarrow> Post list \<Rightarrow> GraphModel" where
  "mapPostsToGraphWith L h posts =
     (let publishedPosts = filter isPublished posts;
          sortedTags = sortTags h (collectTags publishedPosts);
          branches = makeBranches L h sortedTags;
          branchMap = new_Map (map (\<lambda>b. (b_id b, b)) branches);
          (nodes1, edges1) =
            fold (commitStep L h branchMap) (enumerate 0 publishedPosts) ([], []);
          (nodes2, lastYear, lastMonth) =
            fold (separatorStep L h) (enumerate 0 publishedPosts) (nodes1, None, None);
          nodes3 = todayStep h (computeTodayY L h publishedPosts) nodes2
      in \<lparr>branches = branches, nodes = nodes3, edges = edges1\<rparr>)"

definition mapPostsToGraph :: "Host \<Rightarrow> Post list \<Rightarrow> GraphModel" where
  "mapPostsToGraph h posts = mapPostsToGraphWith LAYOUT_CONSTANTS h posts"


section \<open>Notions used to state the properties\<close>

text \<open>
  The truthiness of \<open>primaryTag\<close> and the value of \<open>branchId\<close> in the first sweep, as
  functions of the post.
\<close>

definition hasTag :: "Post \<Rightarrow> bool" where
  "hasTag post = (case primaryTagOf post of None \<Rightarrow> False | Some t \<Rightarrow> t \<noteq> [])"

definition branchIdOf :: "Host \<Rightarrow> Post \<Rightarrow> string" where
  "branchIdOf h post =
     (case primaryTagOf post of None \<Rightarrow> ''main''
      | Some t \<Rightarrow> if t \<noteq> [] then js_slug h t else ''main'')"

text \<open>What one step of the first sweep pushes, and the map it looks branches up in.\<close>

definition commitNodes ::
  "Layout \<Rightarrow> Host \<Rightarrow> (string \<rightharpoonup> Branch) \<Rightarrow> nat \<times> Post \<Rightarrow> GraphNode list" where
  "commitNodes L h bm ip = fst (commitStep L h bm ip ([], []))"

definition commitEdges ::
  "Layout \<Rightarrow> Host \<Rightarrow> (string \<rightharpoonup> Branch) \<Rightarrow> nat \<times> Post \<Rightarrow> Edge list" where
  "commitEdges L h bm ip = snd (commitStep L h bm ip ([], []))"

definition branchMapOf :: "Layout \<Rightarrow> Host \<Rightarrow> Post list \<Rightarrow> (string \<rightharpoonup> Branch)" where
  "branchMapOf L h ps =
     new_Map (map (\<lambda>b. (b_id b, b)) (makeBranches L h (sortTags h (collectTags ps))))"

text \<open>What the second sweep and the marker step push.\<close>

definition separatorNodes :: "Layout \<Rightarrow> Host \<Rightarrow> Post list \<Rightarrow> GraphNode list" where
  "separatorNodes L h ps = fst (fold (separatorStep L h) (enumerate 0 ps) ([], None, None))"

definition todayNodes :: "Layout \<Rightarrow> Host \<Rightarrow> Post list \<Rightarrow> GraphNode list" where
  "todayNodes L h ps = todayStep h (computeTodayY L h ps) []"

section \<open>A host for the examples\<close>

text \<open>
  A concrete host, for evaluating the function on examples. On ASCII text github-slugger's
  \<open>slug\<close> puts the string in lower case, deletes every character but letters, digits,
  hyphen, underscore and space, and turns each space into a hyphen. The comparison is by
  character code, which is the order of \<open>localeCompare\<close> on lower-case ASCII letters.
  Dates are \<open>YYYY-MM-DD\<close>; \<open>dayNumber\<close> grows with the date, and the function only
  compares these timestamps with each other.
\<close>

definition ascii_lower :: "char \<Rightarrow> char" where
  "ascii_lower c =
     (if CHR ''A'' \<le> c \<and> c \<le> CHR ''Z'' then char_of (of_char c + (32::nat)) else c)"

definition slug_keeps :: "char \<Rightarrow> bool" where
  "slug_keeps c =
     ((CHR ''a'' \<le> c \<and> c \<le> CHR ''z'') \<or> (CHR ''0'' \<le> c \<and> c \<le> CHR ''9'')
      \<or> c = CHR ''-'' \<or> c = CHR ''_'' \<or> c = CHR '' '')"

definition slug_ascii :: "string \<Rightarrow> string" where
  "slug_ascii s =
     map (\<lambda>c. if c = CHR '' '' then CHR ''-'' else c) (filter slug_keeps (map ascii_lower s))"

definition compare_strings :: "string \<Rightarrow> string \<Rightarrow> int" where
  "compare_strings a b = (if a < b then - 1 else if a = b then 0 else 1)"

definition digit_val :: "char \<Rightarrow> nat" where
  "digit_val c = of_char c - 48"

definition decimal :: "string \<Rightarrow> nat" where
  "decimal s = fold (\<lambda>c n. 10 * n + digit_val c) s 0"

definition yearOf :: "string \<Rightarrow> nat" where
  "yearOf s = decimal (take 4 s)"

definition monthOf :: "string \<Rightarrow> nat" where
  "monthOf s = decimal (take 2 (drop 5 s)) - 1"

definition dayNumber :: "string \<Rightarrow> nat" where
  "dayNumber s = (yearOf s * 12 + monthOf s) * 31 + decimal (take 2 (drop 8 s))"

definition exampleHost :: "string \<Rightarrow> Host" where
  "exampleHost today =
     \<lparr>js_slug = slug_ascii, js_toLowerCase = map ascii_lower,
      js_localeCompare = compare_strings,
      js_getFullYear = (\<lambda>s. int (yearOf s)),
      js_getMonth = monthOf,
      js_startOfDay = (\<lambda>s. int (dayNumber s)),
      js_today = int (dayNumber today), js_todayISO = today\<rparr>"

definition mkPost :: "string \<Rightarrow> string \<Rightarrow> string list \<Rightarrow> bool \<Rightarrow> Post" where
  "mkPost s d ts dr =
     \<lparr>slug = s, title = ''Title'', summary = None, date = d, tags = Some ts, draft = Some dr\<rparr>"

text \<open>
  The separator between two adjacent records, in the words of the specification: a year
  separator labelled with the new year when the years differ, else a month separator when
  the months differ, else none; at the row of the current record less half a row.
\<close>

definition separatorBetween :: "Layout \<Rightarrow> Host \<Rightarrow> Post \<Rightarrow> Post \<Rightarrow> nat \<Rightarrow> GraphNode list" where
  "separatorBetween L h previous current index =
     (let year = js_getFullYear h (date current);
          month = js_getMonth h (date current);
          y = rowY L index - ROW_HEIGHT L / 2
      in if year \<noteq> js_getFullYear h (date previous)
         then [SeparatorNode (''separator-year-'' @ String_int year) (String_int year) Year 0 y]
         else if month \<noteq> js_getMonth h (date previous)
         then [SeparatorNode
                 (''separator-month-'' @ String_int year @ ''-'' @ string_of_nat month)
                 (monthName month @ '' '' @ String_int year) Month 0 y]
         else [])"

text \<open>
  Every record of the list that has a tag finds a branch in the map; the first sweep meets
  no other case (\<open>lookup_tagged\<close> below).
\<close>

definition finds :: "Host \<Rightarrow> (string \<rightharpoonup> Branch) \<Rightarrow> (nat \<times> Post) list \<Rightarrow> bool" where
  "finds h bm ips = (\<forall>ip \<in> set ips. hasTag (snd ip) \<longrightarrow> bm (branchIdOf h (snd ip)) \<noteq> None)"

text \<open>A node with its coordinates forgotten: what is left is its kind, id and payload.\<close>

fun withoutCoordinates :: "GraphNode \<Rightarrow> GraphNode" where
  "withoutCoordinates (CommitNode i b s t sm d x y tid ds db) =
     CommitNode i b s t sm d 0 0 tid ds db"
| "withoutCoordinates (MergeNode i b s d x y) = MergeNode i b s d 0 0"
| "withoutCoordinates (SeparatorNode i l k x y) = SeparatorNode i l k 0 0"
| "withoutCoordinates (TodayNode i d x y) = TodayNode i d 0 0"

section \<open>The shape of the result\<close>

lemma commitStep_push:
  "commitStep L h bm ip (ns, es) = (ns @ commitNodes L h bm ip, es @ commitEdges L h bm ip)"
  by (cases ip) (simp add: commitStep_def commitNodes_def commitEdges_def Let_def split: option.splits)

lemma fold_commitStep:
  "fold (commitStep L h bm) ips (ns, es) =
     (ns @ concat (map (commitNodes L h bm) ips), es @ concat (map (commitEdges L h bm) ips))"
  by (induction ips arbitrary: ns es) (simp_all add: commitStep_push)

lemma separatorStep_push:
  "separatorStep L h ip (ns, ly, lm) =
     (ns @ fst (separatorStep L h ip ([], ly, lm)), snd (separatorStep L h ip ([], ly, lm)))"
  by (cases ip) (simp add: separatorStep_def Let_def)

lemma fold_separatorStep_push:
  "fst (fold (separatorStep L h) ips (ns, ly, lm)) =
     ns @ fst (fold (separatorStep L h) ips ([], ly, lm))"
proof (induction ips arbitrary: ns ly lm)
  case Nil
  show ?case by simp
next
  case (Cons ip ips)
  obtain ms ly' lm' where st: "separatorStep L h ip ([], ly, lm) = (ms, ly', lm')"
    by (cases "separatorStep L h ip ([], ly, lm)") auto
  have "separatorStep L h ip (ns, ly, lm) = (ns @ ms, ly', lm')"
    using separatorStep_push [of L h ip ns ly lm] st by simp
  then show ?case
    using Cons.IH [of "ns @ ms" ly' lm'] Cons.IH [of ms ly' lm'] st by simp
qed

lemma todayStep_push: "todayStep h ty ns = ns @ todayStep h ty []"
  by (simp add: todayStep_def split: option.splits)

lemma nodes_mapPostsToGraphWith:
  "nodes (mapPostsToGraphWith L h posts) =
     concat (map (commitNodes L h (branchMapOf L h (filter isPublished posts)))
               (enumerate 0 (filter isPublished posts)))
     @ separatorNodes L h (filter isPublished posts)
     @ todayNodes L h (filter isPublished posts)"
  unfolding mapPostsToGraphWith_def Let_def branchMapOf_def separatorNodes_def todayNodes_def
  by (simp add: fold_commitStep split_def
        fold_separatorStep_push [of L h _ "concat _"] todayStep_push [of h _ "_ @ _"])

lemma edges_mapPostsToGraphWith:
  "edges (mapPostsToGraphWith L h posts) =
     concat (map (commitEdges L h (branchMapOf L h (filter isPublished posts)))
               (enumerate 0 (filter isPublished posts)))"
  unfolding mapPostsToGraphWith_def Let_def branchMapOf_def
  by (simp add: fold_commitStep split_def)

lemma branches_mapPostsToGraphWith:
  "branches (mapPostsToGraphWith L h posts) =
     makeBranches L h (sortTags h (collectTags (filter isPublished posts)))"
  unfolding mapPostsToGraphWith_def Let_def
  by (simp add: split_def)

subsection \<open>One step of the first sweep\<close>

lemma commitNodes_tagged:
  assumes "hasTag p" and "bm (branchIdOf h p) = Some br"
  shows "commitNodes L h bm (i, p) =
     [CommitNode (''commit-'' @ branchIdOf h p @ ''-'' @ slug p) (branchIdOf h p) (slug p)
        (title p) (summary p) (date p) (b_x br) (rowY L i) ''git-commit-node'' (slug p)
        (branchIdOf h p),
      MergeNode (''merge-'' @ slug p) ''main'' (slug p) (date p) (MAIN_X L) (rowY L i)]"
  using assms
  by (auto simp: commitNodes_def commitStep_def hasTag_def branchIdOf_def Let_def
      split: option.splits)

lemma commitNodes_main:
  assumes "\<not> hasTag p \<or> bm (branchIdOf h p) = None"
  shows "commitNodes L h bm (i, p) =
     [CommitNode (''commit-main-'' @ slug p) ''main'' (slug p) (title p) (summary p) (date p)
        (MAIN_X L) (rowY L i) ''git-commit-node'' (slug p) ''main'']"
  using assms
  by (auto simp: commitNodes_def commitStep_def hasTag_def branchIdOf_def Let_def
      split: option.splits)

lemma commitEdges_tagged:
  assumes "hasTag p" and "bm (branchIdOf h p) = Some br"
  shows "commitEdges L h bm (i, p) =
     [\<lparr>e_id = ''edge-'' @ (''commit-'' @ branchIdOf h p @ ''-'' @ slug p) @ ''-'' @
               (''merge-'' @ slug p),
       e_from = ''commit-'' @ branchIdOf h p @ ''-'' @ slug p,
       e_to = ''merge-'' @ slug p, e_type = MergeConnector\<rparr>]"
  using assms
  by (auto simp: commitEdges_def commitStep_def hasTag_def branchIdOf_def Let_def
      split: option.splits)

lemma commitEdges_main:
  assumes "\<not> hasTag p \<or> bm (branchIdOf h p) = None"
  shows "commitEdges L h bm (i, p) = []"
  using assms
  by (auto simp: commitEdges_def commitStep_def hasTag_def branchIdOf_def Let_def
      split: option.splits)

lemma commitNodes_cases:
  obtains (tagged) br where "hasTag p" "bm (branchIdOf h p) = Some br"
  | (main) "\<not> hasTag p \<or> bm (branchIdOf h p) = None"
  by (cases "bm (branchIdOf h p)") auto

lemma commits_of_commitNodes:
  "map (\<lambda>n. (n_slug n, n_y n)) (filter is_commit (commitNodes L h bm (i, p))) =
     [(slug p, rowY L i)]"
  by (rule commitNodes_cases [of p bm h])
     (simp_all add: commitNodes_tagged commitNodes_main)


lemma no_today_in_commitNodes: "filter is_today (commitNodes L h bm ip) = []"
  by (cases ip, rule commitNodes_cases [of "snd ip" bm h])
     (simp_all add: commitNodes_tagged commitNodes_main)

subsection \<open>The separators and the marker are of their own kinds\<close>

lemma separatorStep_only_separators:
  assumes "\<forall>n \<in> set ns. is_separator n"
  shows "\<forall>n \<in> set (fst (separatorStep L h ip (ns, ly, lm))). is_separator n"
  using assms by (cases ip) (simp add: separatorStep_def Let_def)

lemma fold_separatorStep_only_separators:
  assumes "\<forall>n \<in> set ns. is_separator n"
  shows "\<forall>n \<in> set (fst (fold (separatorStep L h) ips (ns, ly, lm))). is_separator n"
  using assms
proof (induction ips arbitrary: ns ly lm)
  case Nil
  then show ?case by simp
next
  case (Cons ip ips)
  obtain ms ly' lm' where st: "separatorStep L h ip (ns, ly, lm) = (ms, ly', lm')"
    by (cases "separatorStep L h ip (ns, ly, lm)") auto
  have "\<forall>n \<in> set ms. is_separator n"
    using separatorStep_only_separators [OF Cons.prems, of L h ip ly lm] st by simp
  then show ?case
    using Cons.IH [of ms ly' lm'] st by simp
qed

lemma separatorNodes_only_separators: "n \<in> set (separatorNodes L h ps) \<Longrightarrow> is_separator n"
  using fold_separatorStep_only_separators [of "[]" L h "enumerate 0 ps" None None]
  by (simp add: separatorNodes_def)

lemma todayNodes_only_today: "n \<in> set (todayNodes L h ps) \<Longrightarrow> is_today n"
  by (auto simp: todayNodes_def todayStep_def split: option.splits if_splits)

lemma filter_none: "(\<And>x. x \<in> set xs \<Longrightarrow> \<not> P x) \<Longrightarrow> filter P xs = []"
  by (induction xs) auto

lemma filter_all: "(\<And>x. x \<in> set xs \<Longrightarrow> P x) \<Longrightarrow> filter P xs = xs"
  by (induction xs) auto

lemma is_separator_excl: "is_separator n \<Longrightarrow> \<not> is_commit n \<and> \<not> is_merge n \<and> \<not> is_today n"
  by (cases n) auto

lemma is_today_excl: "is_today n \<Longrightarrow> \<not> is_commit n \<and> \<not> is_merge n \<and> \<not> is_separator n"
  by (cases n) auto

lemma commits_of_graph:
  "map (\<lambda>n. (n_slug n, n_y n)) (filter is_commit (nodes (mapPostsToGraphWith L h posts))) =
     map (\<lambda>(i, p). (slug p, rowY L i)) (enumerate 0 (filter isPublished posts))"
proof -
  let ?ps = "filter isPublished posts"
  let ?bm = "branchMapOf L h ?ps"
  have s: "filter is_commit (separatorNodes L h ?ps) = []"
    by (rule filter_none) (use separatorNodes_only_separators is_separator_excl in blast)
  have t: "filter is_commit (todayNodes L h ?ps) = []"
    by (rule filter_none) (use todayNodes_only_today is_today_excl in blast)
  have "map (\<lambda>n. (n_slug n, n_y n)) (filter is_commit (concat (map (commitNodes L h ?bm) ips))) =
        map (\<lambda>(i, p). (slug p, rowY L i)) ips" for ips
    by (induction ips) (auto simp: commits_of_commitNodes)
  then show ?thesis
    by (simp add: nodes_mapPostsToGraphWith s t)
qed

lemma map_fst_enumerate_fun:
  "map (\<lambda>p. f (fst p)) (enumerate n xs) = map f [n..<n + length xs]"
proof -
  have "map f [n..<n + length xs] = map f (map fst (enumerate n xs))"
    by (simp only: map_fst_enumerate)
  also have "\<dots> = map (\<lambda>p. f (fst p)) (enumerate n xs)"
    by (simp only: map_map comp_def)
  finally show ?thesis by (rule sym)
qed

lemma ys_of_commits:
  "map n_y (filter is_commit (nodes (mapPostsToGraphWith L h posts))) =
     map (rowY L) [0..<length (filter isPublished posts)]"
proof -
  have "map n_y (filter is_commit (nodes (mapPostsToGraphWith L h posts))) =
        map snd (map (\<lambda>n. (n_slug n, n_y n)) (filter is_commit (nodes (mapPostsToGraphWith L h posts))))"
    by simp
  also have "\<dots> = map (\<lambda>p. rowY L (fst p)) (enumerate 0 (filter isPublished posts))"
    unfolding commits_of_graph by (simp add: split_def)
  finally show ?thesis by (simp add: map_fst_enumerate_fun)
qed

lemma rowY_default: "rowY LAYOUT_CONSTANTS i = 24 + real i * 48"
  by (simp add: rowY_def LAYOUT_CONSTANTS_def)

lemma rowY_default_fun: "rowY LAYOUT_CONSTANTS = (\<lambda>i. 24 + real i * 48)"
  by (simp add: fun_eq_iff rowY_default)

section \<open>C1: one commit per published record\<close>

text \<open>
  C1. Whatever the input list, the Commit nodes of the result are, in order, one per
  record that is not a draft: the Commit at index \<open>i\<close> among them carries the slug of
  the \<open>i\<close>-th such record and \<open>y = PADDING_TOP + i * ROW_HEIGHT = 24 + i * 48\<close>. So there
  are as many Commit nodes as records that are not drafts (a draft yields none), and
  their \<open>y\<close> is strictly increasing.
\<close>

theorem C1_commit_per_published_record:
  "map (\<lambda>n. (n_slug n, n_y n)) (filter is_commit (nodes (mapPostsToGraph h posts))) =
     map (\<lambda>(i, p). (slug p, 24 + real i * 48))
       (enumerate 0 (filter (\<lambda>p. draft p \<noteq> Some True) posts))
   \<and> length (filter is_commit (nodes (mapPostsToGraph h posts))) =
       length (filter (\<lambda>p. draft p \<noteq> Some True) posts)
   \<and> sorted_wrt (<) (map n_y (filter is_commit (nodes (mapPostsToGraph h posts))))"
proof -
  have "isPublished = (\<lambda>p. draft p \<noteq> Some True)"
    by (simp add: fun_eq_iff isPublished_def)
  then have pub: "filter (\<lambda>p. draft p \<noteq> Some True) posts = filter isPublished posts"
    by simp
  have a: "map (\<lambda>n. (n_slug n, n_y n)) (filter is_commit (nodes (mapPostsToGraph h posts))) =
     map (\<lambda>(i, p). (slug p, 24 + real i * 48)) (enumerate 0 (filter isPublished posts))"
    by (simp add: mapPostsToGraph_def commits_of_graph rowY_default)
  have b: "length (filter is_commit (nodes (mapPostsToGraph h posts))) =
       length (filter isPublished posts)"
    using arg_cong [OF a, of length] by simp
  have "sorted_wrt (<) (map (\<lambda>i. 24 + real i * 48) [0..<n])" for n
    by (simp add: sorted_wrt_map sorted_wrt_iff_nth_less)
  then have c: "sorted_wrt (<) (map n_y (filter is_commit (nodes (mapPostsToGraph h posts))))"
    by (simp add: mapPostsToGraph_def ys_of_commits rowY_default_fun)
  show ?thesis using a b c by (simp add: pub)
qed


theorem C1_commit_per_published_record_witness:
  "map (\<lambda>n. (n_slug n, n_y n))
     (filter is_commit (nodes (mapPostsToGraph (exampleHost ''2025-01-01'')
        [mkPost ''a'' ''2024-12-20'' [''zebra''] False,
         mkPost ''b'' ''2024-11-15'' [''Apple''] True,
         mkPost ''c'' ''2023-11-01'' [] False]))) =
   [(''a'', 24), (''c'', 72)]"
  using C1_commit_per_published_record [of "exampleHost ''2025-01-01''"
      "[mkPost ''a'' ''2024-12-20'' [''zebra''] False,
        mkPost ''b'' ''2024-11-15'' [''Apple''] True,
        mkPost ''c'' ''2023-11-01'' [] False]"]
  by (simp add: mkPost_def)

section \<open>C4: separators\<close>

declare string_of_nat.simps [simp del]

lemma separatorStep_first:
  "separatorStep L h (0, p) (ns, None, None) =
     (ns, Some (js_getFullYear h (date p)), Some (js_getMonth h (date p)))"
  by (simp add: separatorStep_def Let_def)

lemma separatorStep_later:
  assumes "0 < i"
  shows "separatorStep L h (i, p)
           (ns, Some (js_getFullYear h (date q)), Some (js_getMonth h (date q))) =
         (ns @ separatorBetween L h q p i,
          Some (js_getFullYear h (date p)), Some (js_getMonth h (date p)))"
  using assms by (simp add: separatorStep_def separatorBetween_def Let_def)

lemma fold_separatorStep_later:
  assumes "0 < i"
  shows "fst (fold (separatorStep L h) (enumerate i ps)
                (ns, Some (js_getFullYear h (date q)), Some (js_getMonth h (date q)))) =
         ns @ concat (map (\<lambda>k. separatorBetween L h ((q # ps) ! k) (ps ! k) (i + k))
                        [0..<length ps])"
  using assms
proof (induction ps arbitrary: i q ns)
  case Nil
  show ?case by simp
next
  case (Cons p rest)
  have "fst (fold (separatorStep L h) (enumerate i (p # rest))
               (ns, Some (js_getFullYear h (date q)), Some (js_getMonth h (date q)))) =
        fst (fold (separatorStep L h) (enumerate (Suc i) rest)
               (ns @ separatorBetween L h q p i,
                Some (js_getFullYear h (date p)), Some (js_getMonth h (date p))))"
    by (simp add: separatorStep_later [OF Cons.prems])
  also have "\<dots> = (ns @ separatorBetween L h q p i) @
      concat (map (\<lambda>k. separatorBetween L h ((p # rest) ! k) (rest ! k) (Suc i + k))
                [0..<length rest])"
    by (rule Cons.IH) simp
  finally show ?case
    by (simp add: map_upt_Suc del: upt_Suc)
qed

lemma separatorNodes_between:
  "separatorNodes L h ps =
     concat (map (\<lambda>k. separatorBetween L h (ps ! k) (ps ! Suc k) (Suc k)) [0..<length ps - 1])"
proof (cases ps)
  case Nil
  then show ?thesis by (simp add: separatorNodes_def)
next
  case (Cons p rest)
  have "separatorNodes L h ps =
        fst (fold (separatorStep L h) (enumerate (Suc 0) rest)
               ([], Some (js_getFullYear h (date p)), Some (js_getMonth h (date p))))"
    by (simp add: separatorNodes_def Cons separatorStep_first)
  also have "\<dots> = [] @ concat (map (\<lambda>k. separatorBetween L h ((p # rest) ! k) (rest ! k) (Suc 0 + k))
                        [0..<length rest])"
    by (rule fold_separatorStep_later) simp
  finally show ?thesis by (simp add: Cons)
qed



lemma isPublished_fun: "isPublished = (\<lambda>p. draft p \<noteq> Some True)"
  by (simp add: fun_eq_iff isPublished_def)



subsection \<open>Values of the example host\<close>

lemma yearOf_examples:
  "yearOf ''2024-12-20'' = 2024" "yearOf ''2024-11-15'' = 2024" "yearOf ''2023-11-01'' = 2023"
  by (simp_all add: yearOf_def decimal_def digit_val_def)

lemma monthOf_examples:
  "monthOf ''2024-12-20'' = 11" "monthOf ''2024-11-15'' = 10" "monthOf ''2023-11-01'' = 10"
  by (simp_all add: monthOf_def decimal_def digit_val_def)

lemma dayNumber_examples:
  "dayNumber ''2024-12-20'' = 753289" "dayNumber ''2025-01-01'' = 753301"
  "dayNumber ''2024-01-01'' = 752929"
  by (simp_all add: dayNumber_def yearOf_def monthOf_def decimal_def digit_val_def)





section \<open>C5: the today marker\<close>

lemma findTodayY_Some:
  assumes "findTodayY L h k ps = Some y"
  shows "\<exists>i<length ps. js_startOfDay h (date (ps ! i)) \<le> js_today h
           \<and> (\<forall>j<i. js_today h < js_startOfDay h (date (ps ! j)))
           \<and> y = rowY L (k + i)"
  using assms
proof (induction ps arbitrary: k)
  case Nil
  then show ?case by simp
next
  case (Cons p rest)
  show ?case
  proof (cases "js_startOfDay h (date p) \<le> js_today h")
    case True
    with Cons.prems have "y = rowY L k" by simp
    with True show ?thesis by (intro exI [of _ 0]) simp
  next
    case False
    with Cons.prems have "findTodayY L h (Suc k) rest = Some y" by simp
    from Cons.IH [OF this] obtain i where i: "i < length rest"
      "js_startOfDay h (date (rest ! i)) \<le> js_today h"
      "\<forall>j<i. js_today h < js_startOfDay h (date (rest ! j))"
      "y = rowY L (Suc k + i)" by blast
    have "\<forall>j<Suc i. js_today h < js_startOfDay h (date ((p # rest) ! j))"
      using i(3) False by (auto simp: less_Suc_eq_0_disj)
    with i show ?thesis by (intro exI [of _ "Suc i"]) simp
  qed
qed

lemma todayNodes_eq:
  "todayNodes L h ps =
     (case computeTodayY L h ps of
        Some ty \<Rightarrow> if ty > 0 then [TodayNode ''today-marker'' (js_todayISO h) 0 ty] else []
      | None \<Rightarrow> [])"
  by (simp add: todayNodes_def todayStep_def split: option.splits)

lemma todays_of_graph:
  "filter is_today (nodes (mapPostsToGraphWith L h posts)) =
     todayNodes L h (filter isPublished posts)"
proof -
  have "filter is_today (concat (map (commitNodes L h bm) ips)) = []" for bm ips
    by (induction ips) (simp_all add: no_today_in_commitNodes)
  moreover have "filter is_today (separatorNodes L h ps) = []" for ps
    by (rule filter_none) (use separatorNodes_only_separators is_separator_excl in blast)
  moreover have "filter is_today (todayNodes L h ps) = todayNodes L h ps" for ps
    by (rule filter_all) (rule todayNodes_only_today)
  ultimately show ?thesis
    by (simp add: nodes_mapPostsToGraphWith)
qed

text \<open>
  C5. For every layout, host and input list, with \<open>ps\<close> the records that are not
  drafts: when today is strictly after the day of the newest record, there is a first
  record (from the newest on) whose day is on or before today, and the Today nodes of the
  result are the one marker at that record's \<open>y\<close> if that \<open>y\<close> is positive, and none
  otherwise; when today is on or before the day of the newest record, they are the one
  marker at \<open>PADDING_TOP\<close> if it is positive, and none otherwise. There is at most one
  Today node, and its \<open>y\<close> is strictly positive.
\<close>

theorem C5_today_marker:
  fixes L :: Layout and h :: Host and posts :: "Post list"
  defines "ps \<equiv> filter (\<lambda>p. draft p \<noteq> Some True) posts"
  defines "todays \<equiv> filter is_today (nodes (mapPostsToGraphWith L h posts))"
  shows "(ps \<noteq> [] \<and> js_startOfDay h (date (hd ps)) < js_today h \<longrightarrow>
            (\<exists>i<length ps.
                js_startOfDay h (date (ps ! i)) \<le> js_today h
              \<and> (\<forall>j<i. js_today h < js_startOfDay h (date (ps ! j)))
              \<and> todays =
                  (if PADDING_TOP L + real i * ROW_HEIGHT L > 0
                   then [TodayNode ''today-marker'' (js_todayISO h) 0
                           (PADDING_TOP L + real i * ROW_HEIGHT L)]
                   else [])))
       \<and> (ps \<noteq> [] \<and> js_today h \<le> js_startOfDay h (date (hd ps)) \<longrightarrow>
            todays =
              (if PADDING_TOP L > 0
               then [TodayNode ''today-marker'' (js_todayISO h) 0 (PADDING_TOP L)] else []))
       \<and> length todays \<le> 1
       \<and> (\<forall>n \<in> set todays. n_y n > 0)"
proof -
  have t: "todays = todayNodes L h ps"
    by (simp add: todays_def ps_def todays_of_graph isPublished_fun)
  have a: "\<exists>i<length ps.
                js_startOfDay h (date (ps ! i)) \<le> js_today h
              \<and> (\<forall>j<i. js_today h < js_startOfDay h (date (ps ! j)))
              \<and> todays =
                  (if PADDING_TOP L + real i * ROW_HEIGHT L > 0
                   then [TodayNode ''today-marker'' (js_todayISO h) 0
                           (PADDING_TOP L + real i * ROW_HEIGHT L)]
                   else [])"
    if ne: "ps \<noteq> []" and after: "js_startOfDay h (date (hd ps)) < js_today h"
  proof -
    obtain p rest where ps: "ps = p # rest" using ne by (cases ps) auto
    have "findTodayY L h 0 ps = Some (rowY L 0)"
      using after unfolding ps by simp
    from findTodayY_Some [OF this] obtain i where i: "i < length ps"
      "js_startOfDay h (date (ps ! i)) \<le> js_today h"
      "\<forall>j<i. js_today h < js_startOfDay h (date (ps ! j))"
      "rowY L 0 = rowY L (0 + i)" by blast
    have "computeTodayY L h ps = Some (rowY L i)"
      using after i(4) \<open>findTodayY L h 0 ps = Some (rowY L 0)\<close> unfolding ps
      by (simp add: computeTodayY_def)
    then have "todays =
       (if PADDING_TOP L + real i * ROW_HEIGHT L > 0
        then [TodayNode ''today-marker'' (js_todayISO h) 0 (PADDING_TOP L + real i * ROW_HEIGHT L)]
        else [])"
      by (simp add: t todayNodes_eq rowY_def)
    with i show ?thesis by blast
  qed
  have b: "todays =
              (if PADDING_TOP L > 0
               then [TodayNode ''today-marker'' (js_todayISO h) 0 (PADDING_TOP L)] else [])"
    if ne: "ps \<noteq> []" and before: "js_today h \<le> js_startOfDay h (date (hd ps))"
  proof -
    obtain p rest where ps: "ps = p # rest" using ne by (cases ps) auto
    have "computeTodayY L h ps = Some (PADDING_TOP L)"
      using before unfolding ps by (simp add: computeTodayY_def)
    then show ?thesis by (simp add: t todayNodes_eq)
  qed
  have c: "length todays \<le> 1"
    by (simp add: t todayNodes_eq split: option.splits)
  have d: "\<forall>n \<in> set todays. n_y n > 0"
    by (auto simp: t todayNodes_eq split: option.splits if_splits)
  show ?thesis using a b c d by blast
qed

theorem C5_today_marker_witness:
  "filter is_today (nodes (mapPostsToGraphWith LAYOUT_CONSTANTS (exampleHost ''2025-01-01'')
        [mkPost ''a'' ''2024-12-20'' [''zebra''] False,
         mkPost ''b'' ''2024-11-15'' [''Apple''] False])) =
     [TodayNode ''today-marker'' ''2025-01-01'' 0 24]
   \<and> filter is_today (nodes (mapPostsToGraphWith LAYOUT_CONSTANTS (exampleHost ''2024-01-01'')
        [mkPost ''a'' ''2024-12-20'' [''zebra''] False,
         mkPost ''b'' ''2024-11-15'' [''Apple''] False])) =
     [TodayNode ''today-marker'' ''2024-01-01'' 0 24]"
proof
  show "filter is_today (nodes (mapPostsToGraphWith LAYOUT_CONSTANTS (exampleHost ''2025-01-01'')
        [mkPost ''a'' ''2024-12-20'' [''zebra''] False,
         mkPost ''b'' ''2024-11-15'' [''Apple''] False])) =
     [TodayNode ''today-marker'' ''2025-01-01'' 0 24]"
    using C5_today_marker [of "[mkPost ''a'' ''2024-12-20'' [''zebra''] False,
         mkPost ''b'' ''2024-11-15'' [''Apple''] False]" "exampleHost ''2025-01-01''" LAYOUT_CONSTANTS,
        THEN conjunct1]
    by (auto simp: mkPost_def exampleHost_def dayNumber_examples LAYOUT_CONSTANTS_def
        less_Suc_eq_0_disj)
next
  show "filter is_today (nodes (mapPostsToGraphWith LAYOUT_CONSTANTS (exampleHost ''2024-01-01'')
        [mkPost ''a'' ''2024-12-20'' [''zebra''] False,
         mkPost ''b'' ''2024-11-15'' [''Apple''] False])) =
     [TodayNode ''today-marker'' ''2024-01-01'' 0 24]"
    using C5_today_marker [of "[mkPost ''a'' ''2024-12-20'' [''zebra''] False,
         mkPost ''b'' ''2024-11-15'' [''Apple''] False]" "exampleHost ''2024-01-01''" LAYOUT_CONSTANTS,
        THEN conjunct2, THEN conjunct1]
    by (simp add: mkPost_def exampleHost_def dayNumber_examples LAYOUT_CONSTANTS_def)
qed


section \<open>C10: no published record\<close>

lemma computeTodayY_top: "computeTodayY L h ps = Some (PADDING_TOP L)"
  by (cases ps) (simp_all add: computeTodayY_def rowY_def)

text \<open>
  C10. When every record of the input is a draft (the empty list included), the result
  has the main branch alone, no edge, and one node: the Today marker with id
  \<open>today-marker\<close> at \<open>x = 0\<close>, \<open>y = PADDING_TOP = 24\<close>.
\<close>

theorem C10_no_published_record:
  assumes "\<forall>p \<in> set posts. draft p = Some True"
  shows "mapPostsToGraph h posts =
     \<lparr>branches = [\<lparr>b_id = ''main'', b_name = ''main'', b_color = ''#6b7280'', b_x = 150\<rparr>],
      nodes = [TodayNode ''today-marker'' (js_todayISO h) 0 24],
      edges = []\<rparr>"
proof -
  have "filter isPublished posts = []"
    using assms by (simp add: isPublished_def filter_empty_conv)
  then show ?thesis
    by (simp add: mapPostsToGraph_def mapPostsToGraphWith_def collectTags_def sortTags_def
        array_sort_def makeBranches_def mainBranch_def computeTodayY_def todayStep_def
        LAYOUT_CONSTANTS_def)
qed

theorem C10_no_published_record_witness:
  "mapPostsToGraph (exampleHost ''2025-01-01'') [] =
     \<lparr>branches = [\<lparr>b_id = ''main'', b_name = ''main'', b_color = ''#6b7280'', b_x = 150\<rparr>],
      nodes = [TodayNode ''today-marker'' ''2025-01-01'' 0 24],
      edges = []\<rparr>
   \<and> mapPostsToGraph (exampleHost ''2025-01-01'')
       [mkPost ''a'' ''2024-12-20'' [''zebra''] True, mkPost ''b'' ''2024-11-15'' [] True] =
     \<lparr>branches = [\<lparr>b_id = ''main'', b_name = ''main'', b_color = ''#6b7280'', b_x = 150\<rparr>],
      nodes = [TodayNode ''today-marker'' ''2025-01-01'' 0 24],
      edges = []\<rparr>"
  using C10_no_published_record [of "[]" "exampleHost ''2025-01-01''"]
    C10_no_published_record [of "[mkPost ''a'' ''2024-12-20'' [''zebra''] True,
        mkPost ''b'' ''2024-11-15'' [] True]" "exampleHost ''2025-01-01''"]
  by (simp add: mkPost_def exampleHost_def)

section \<open>C3: the branches\<close>

subsection \<open>The set of primary tags\<close>

lemma set_set_add: "set (set_add s a) = insert a (set s)"
  by (auto simp: set_add_def)

lemma distinct_set_add: "distinct s \<Longrightarrow> distinct (set_add s a)"
  by (simp add: set_add_def)

lemma fold_collect:
  "set (fold (\<lambda>post tagSet. case primaryTagOf post of None \<Rightarrow> tagSet
                              | Some t \<Rightarrow> set_add tagSet t) ps acc) =
     set acc \<union> set (List.map_filter primaryTagOf ps)
   \<and> (distinct acc \<longrightarrow>
        distinct (fold (\<lambda>post tagSet. case primaryTagOf post of None \<Rightarrow> tagSet
                              | Some t \<Rightarrow> set_add tagSet t) ps acc))"
proof (induction ps arbitrary: acc)
  case Nil
  show ?case by (simp add: List.map_filter_simps)
next
  case (Cons p ps)
  show ?case
  proof (cases "primaryTagOf p")
    case None
    then show ?thesis using Cons.IH [of acc] by (simp add: List.map_filter_simps)
  next
    case (Some t)
    then show ?thesis using Cons.IH [of "set_add acc t"]
      by (auto simp: List.map_filter_simps set_set_add distinct_set_add)
  qed
qed

lemma set_collectTags: "set (collectTags ps) = set (List.map_filter primaryTagOf ps)"
  using fold_collect [of ps "[]"] by (simp add: collectTags_def)

lemma distinct_collectTags: "distinct (collectTags ps)"
  using fold_collect [of ps "[]"] by (simp add: collectTags_def)

lemma length_collectTags:
  "length (collectTags ps) = length (remdups (List.map_filter primaryTagOf ps))"
proof -
  have "length (collectTags ps) = card (set (collectTags ps))"
    by (simp add: distinct_card distinct_collectTags)
  also have "\<dots> = length (remdups (List.map_filter primaryTagOf ps))"
    by (simp add: set_collectTags length_remdups_card_conv)
  finally show ?thesis .
qed

subsection \<open>The sort\<close>

lemma set_insert_by: "set (insert_by c a xs) = insert a (set xs)"
  by (induction xs) auto

lemma length_insert_by: "length (insert_by c a xs) = Suc (length xs)"
  by (induction xs) auto

lemma distinct_insert_by: "distinct (insert_by c a xs) = (a \<notin> set xs \<and> distinct xs)"
  by (induction xs) (auto simp: set_insert_by)

lemma set_array_sort: "set (array_sort c xs) = set xs"
  by (induction xs) (simp_all add: array_sort_def set_insert_by)

lemma length_array_sort: "length (array_sort c xs) = length xs"
  by (induction xs) (simp_all add: array_sort_def length_insert_by)

lemma distinct_array_sort: "distinct (array_sort c xs) = distinct xs"
  by (induction xs) (simp_all add: array_sort_def distinct_insert_by set_array_sort [unfolded array_sort_def])

lemma sorted_insert_by:
  assumes total: "\<And>a b. c a b \<le> 0 \<or> c b a \<le> 0"
    and trans: "\<And>a b d. c a b \<le> 0 \<Longrightarrow> c b d \<le> 0 \<Longrightarrow> c a d \<le> 0"
    and "sorted_wrt (\<lambda>a b. c a b \<le> 0) xs"
  shows "sorted_wrt (\<lambda>a b. c a b \<le> 0) (insert_by c a xs)"
  using assms(3)
proof (induction xs)
  case Nil
  show ?case by simp
next
  case (Cons b bs)
  show ?case
  proof (cases "c a b \<le> 0")
    case True
    then have "\<forall>d \<in> set bs. c a d \<le> 0"
      using Cons.prems trans by auto
    with True Cons.prems show ?thesis by simp
  next
    case False
    then have "c b a \<le> 0" using total [of a b] by simp
    with False Cons show ?thesis by (auto simp: set_insert_by)
  qed
qed

lemma sorted_array_sort:
  assumes total: "\<And>a b. c a b \<le> 0 \<or> c b a \<le> 0"
    and trans: "\<And>a b d. c a b \<le> 0 \<Longrightarrow> c b d \<le> 0 \<Longrightarrow> c a d \<le> 0"
  shows "sorted_wrt (\<lambda>a b. c a b \<le> 0) (array_sort c xs)"
proof (induction xs)
  case Nil
  show ?case by (simp add: array_sort_def)
next
  case (Cons x xs)
  then show ?case
    using sorted_insert_by [of c "foldr (insert_by c) xs []" x, OF total trans]
    by (simp add: array_sort_def)
qed

subsection \<open>The branches\<close>

lemma map_snd_enumerate_fun:
  "map (\<lambda>p. f (snd p)) (enumerate n xs) = map f xs"
proof -
  have "map f xs = map f (map snd (enumerate n xs))"
    by (simp only: map_snd_enumerate)
  also have "\<dots> = map (\<lambda>p. f (snd p)) (enumerate n xs)"
    by (simp only: map_map comp_def)
  finally show ?thesis by (rule sym)
qed

lemma tl_makeBranches:
  "tl (makeBranches L h ts) = map (tagBranch L h (length ts)) (enumerate 0 ts)"
  by (simp add: makeBranches_def)

lemma names_makeBranches: "map b_name (tl (makeBranches L h ts)) = ts"
  using map_snd_enumerate_fun [of "\<lambda>t. t" 0 ts]
  by (simp add: tl_makeBranches tagBranch_def split_def comp_def)

lemma ids_makeBranches: "map b_id (tl (makeBranches L h ts)) = map (js_slug h) ts"
  using map_snd_enumerate_fun [of "js_slug h" 0 ts]
  by (simp add: tl_makeBranches tagBranch_def split_def comp_def)

lemma xs_makeBranches:
  "map b_x (tl (makeBranches L h ts)) =
     map (\<lambda>i. MAIN_X L - (real (length ts) - real i) * BRANCH_SPACING L) [0..<length ts]"
  using map_fst_enumerate_fun [of "\<lambda>i. MAIN_X L - (real (length ts) - real i) * BRANCH_SPACING L" 0 ts]
  by (simp add: tl_makeBranches tagBranch_def split_def comp_def)

lemma sorted_xs_default:
  "sorted_wrt (<) (map (\<lambda>i. 150 - (real n - real i) * 80) [0..<n])"
  by (simp add: sorted_wrt_map sorted_wrt_iff_nth_less)

text \<open>
  C3. With a consistent comparison (total and transitive) the branch list is the main
  branch, with \<open>x = MAIN_X = 150\<close>, followed by one branch for each distinct primary
  tag of the records that are not drafts: their names are those tags, each once, sorted
  ascending by the comparison of the lower-cased names; the id is the slug of the name;
  the branch at rank \<open>i\<close> of \<open>N\<close> has \<open>x = MAIN_X - (N - i) * BRANCH_SPACING\<close>, so
  \<open>x\<close> increases strictly with the rank and the last tag is the nearest to main, one
  spacing to its left.
\<close>

theorem C3_branch_order:
  fixes h :: Host and posts :: "Post list"
  defines "bs \<equiv> branches (mapPostsToGraph h posts)"
  defines "primaryTags \<equiv>
    List.map_filter primaryTagOf (filter (\<lambda>p. draft p \<noteq> Some True) posts)"
  defines "N \<equiv> length (remdups primaryTags)"
  assumes total: "\<forall>a b. js_localeCompare h (js_toLowerCase h a) (js_toLowerCase h b) \<le> 0
                      \<or> js_localeCompare h (js_toLowerCase h b) (js_toLowerCase h a) \<le> 0"
    and trans: "\<forall>a b c. js_localeCompare h (js_toLowerCase h a) (js_toLowerCase h b) \<le> 0
                  \<longrightarrow> js_localeCompare h (js_toLowerCase h b) (js_toLowerCase h c) \<le> 0
                  \<longrightarrow> js_localeCompare h (js_toLowerCase h a) (js_toLowerCase h c) \<le> 0"
  shows "bs \<noteq> []
    \<and> hd bs = \<lparr>b_id = ''main'', b_name = ''main'', b_color = ''#6b7280'', b_x = 150\<rparr>
    \<and> length (tl bs) = N
    \<and> distinct (map b_name (tl bs))
    \<and> set (map b_name (tl bs)) = set primaryTags
    \<and> sorted_wrt (\<lambda>a b. js_localeCompare h (js_toLowerCase h a) (js_toLowerCase h b) \<le> 0)
         (map b_name (tl bs))
    \<and> map b_id (tl bs) = map (js_slug h) (map b_name (tl bs))
    \<and> map b_x (tl bs) = map (\<lambda>i. 150 - (real N - real i) * 80) [0..<N]
    \<and> sorted_wrt (<) (map b_x (tl bs))
    \<and> (0 < N \<longrightarrow> b_x (last bs) = 150 - 80)"
proof -
  let ?ps = "filter isPublished posts"
  let ?ts = "sortTags h (collectTags ?ps)"
  have bs: "bs = makeBranches LAYOUT_CONSTANTS h ?ts"
    by (simp add: bs_def mapPostsToGraph_def branches_mapPostsToGraphWith)
  have pt: "primaryTags = List.map_filter primaryTagOf ?ps"
    by (simp add: primaryTags_def isPublished_fun)
  have len: "length ?ts = N"
    by (simp add: sortTags_def length_array_sort length_collectTags N_def pt)
  have names: "map b_name (tl bs) = ?ts"
    by (simp add: bs names_makeBranches)
  have 1: "bs \<noteq> []"
    and 2: "hd bs = \<lparr>b_id = ''main'', b_name = ''main'', b_color = ''#6b7280'', b_x = 150\<rparr>"
    by (simp_all add: bs makeBranches_def mainBranch_def LAYOUT_CONSTANTS_def)
  have 3: "length (tl bs) = N"
    using arg_cong [OF names, of length] len by simp
  have 4: "distinct (map b_name (tl bs))"
    by (simp add: names sortTags_def distinct_array_sort distinct_collectTags)
  have 5: "set (map b_name (tl bs)) = set primaryTags"
    unfolding names by (simp add: sortTags_def set_array_sort set_collectTags pt)
  have 6: "sorted_wrt (\<lambda>a b. js_localeCompare h (js_toLowerCase h a) (js_toLowerCase h b) \<le> 0)
         (map b_name (tl bs))"
    unfolding names sortTags_def
    by (rule sorted_array_sort) (use total trans in blast)+
  have 7: "map b_id (tl bs) = map (js_slug h) (map b_name (tl bs))"
    unfolding names by (simp add: bs ids_makeBranches)
  have 8: "map b_x (tl bs) = map (\<lambda>i. 150 - (real N - real i) * 80) [0..<N]"
    using xs_makeBranches [of LAYOUT_CONSTANTS h ?ts]
    by (simp add: bs len) (simp add: LAYOUT_CONSTANTS_def)
  have 9: "sorted_wrt (<) (map b_x (tl bs))"
    unfolding 8 by (rule sorted_xs_default)
  have 10: "b_x (last bs) = 150 - 80" if "0 < N"
  proof -
    have ne: "tl bs \<noteq> []" using 3 that by (auto simp del: length_tl)
    then have "last bs = last (tl bs)"
      using 1 by (cases bs) auto
    then have "b_x (last bs) = last (map b_x (tl bs))"
      using ne by (simp add: last_map)
    also have "\<dots> = 150 - (real N - real (N - 1)) * 80"
      unfolding 8 using that by (simp add: last_map last_upt del: upt_Suc)
    finally show ?thesis using that by (simp add: of_nat_diff)
  qed
  show ?thesis using 1 2 3 4 5 6 7 8 9 10 by blast
qed

lemma compare_strings_le: "compare_strings a b \<le> 0 \<longleftrightarrow> a \<le> b"
  by (auto simp: compare_strings_def)

theorem C3_branch_order_witness:
  "sorted_wrt (\<lambda>a b. compare_strings (map ascii_lower a) (map ascii_lower b) \<le> 0)
     (map b_name (tl (branches (mapPostsToGraph (exampleHost ''2025-01-01'')
        [mkPost ''a'' ''2024-12-20'' [''zebra''] False,
         mkPost ''b'' ''2024-11-15'' [''Apple''] False,
         mkPost ''c'' ''2023-11-01'' [''mango''] False,
         mkPost ''d'' ''2023-10-01'' [''zebra''] False]))))
   \<and> set (map b_name (tl (branches (mapPostsToGraph (exampleHost ''2025-01-01'')
        [mkPost ''a'' ''2024-12-20'' [''zebra''] False,
         mkPost ''b'' ''2024-11-15'' [''Apple''] False,
         mkPost ''c'' ''2023-11-01'' [''mango''] False,
         mkPost ''d'' ''2023-10-01'' [''zebra''] False])))) = {''zebra'', ''Apple'', ''mango''}
   \<and> map b_x (tl (branches (mapPostsToGraph (exampleHost ''2025-01-01'')
        [mkPost ''a'' ''2024-12-20'' [''zebra''] False,
         mkPost ''b'' ''2024-11-15'' [''Apple''] False,
         mkPost ''c'' ''2023-11-01'' [''mango''] False,
         mkPost ''d'' ''2023-10-01'' [''zebra''] False]))) = [- 90, - 10, 70]
   \<and> b_x (last (branches (mapPostsToGraph (exampleHost ''2025-01-01'')
        [mkPost ''a'' ''2024-12-20'' [''zebra''] False,
         mkPost ''b'' ''2024-11-15'' [''Apple''] False,
         mkPost ''c'' ''2023-11-01'' [''mango''] False,
         mkPost ''d'' ''2023-10-01'' [''zebra''] False]))) = 70"
proof -
  let ?h = "exampleHost ''2025-01-01''"
  have total: "\<forall>a b. js_localeCompare ?h (js_toLowerCase ?h a) (js_toLowerCase ?h b) \<le> 0
             \<or> js_localeCompare ?h (js_toLowerCase ?h b) (js_toLowerCase ?h a) \<le> 0"
    by (auto simp: exampleHost_def compare_strings_le)
  have trans: "\<forall>a b c. js_localeCompare ?h (js_toLowerCase ?h a) (js_toLowerCase ?h b) \<le> 0
      \<longrightarrow> js_localeCompare ?h (js_toLowerCase ?h b) (js_toLowerCase ?h c) \<le> 0
      \<longrightarrow> js_localeCompare ?h (js_toLowerCase ?h a) (js_toLowerCase ?h c) \<le> 0"
    by (auto simp: exampleHost_def compare_strings_le)
  let ?posts = "[mkPost ''a'' ''2024-12-20'' [''zebra''] False,
         mkPost ''b'' ''2024-11-15'' [''Apple''] False,
         mkPost ''c'' ''2023-11-01'' [''mango''] False,
         mkPost ''d'' ''2023-10-01'' [''zebra''] False]"
  let ?bs = "branches (mapPostsToGraph ?h ?posts)"
  note inst = C3_branch_order [where h = ?h and posts = ?posts, OF total trans]
  have pt: "List.map_filter primaryTagOf (filter (\<lambda>p. draft p \<noteq> Some True) ?posts) =
      [''zebra'', ''Apple'', ''mango'', ''zebra'']"
    by (simp add: mkPost_def primaryTagOf_def List.map_filter_simps)
  have n: "length (remdups [''zebra'', ''Apple'', ''mango'', ''zebra'']) = 3"
    by simp
  have 1: "sorted_wrt (\<lambda>a b. compare_strings (map ascii_lower a) (map ascii_lower b) \<le> 0)
     (map b_name (tl ?bs))"
    using inst by (simp add: exampleHost_def)
  have 2: "set (map b_name (tl ?bs)) = {''zebra'', ''Apple'', ''mango''}"
    using inst unfolding pt by auto
  have 3: "map b_x (tl ?bs) = [- 90, - 10, 70]"
    using inst unfolding pt n by (simp add: upt_conv_Cons)
  have 4: "b_x (last ?bs) = 70"
    using inst unfolding pt n by simp
  show ?thesis using 1 2 3 4 by simp
qed

section \<open>C2: merge nodes\<close>

subsection \<open>Every tagged record finds its branch\<close>

lemma new_Map_eq_None: "new_Map kvs k = None \<longleftrightarrow> k \<notin> fst ` set kvs"
  by (simp add: new_Map_def map_of_eq_None_iff)

lemma ids_of_makeBranches:
  "map b_id (makeBranches L h ts) = ''main'' # map (js_slug h) ts"
  using ids_makeBranches [of L h ts] by (simp add: makeBranches_def mainBranch_def)

lemma branchMapOf_eq_None:
  "branchMapOf L h ps k = None \<longleftrightarrow>
     k \<notin> set (''main'' # map (js_slug h) (sortTags h (collectTags ps)))"
proof -
  have "branchMapOf L h ps k = None \<longleftrightarrow>
      k \<notin> set (map b_id (makeBranches L h (sortTags h (collectTags ps))))"
    by (simp add: branchMapOf_def new_Map_eq_None image_image)
  then show ?thesis by (simp only: ids_of_makeBranches)
qed

lemma lookup_tagged:
  assumes "p \<in> set ps" and "hasTag p"
  shows "branchMapOf L h ps (branchIdOf h p) \<noteq> None"
proof -
  from assms(2) obtain t where t: "primaryTagOf p = Some t" "t \<noteq> []"
    by (auto simp: hasTag_def split: option.splits)
  then have "t \<in> set (List.map_filter primaryTagOf ps)"
    using assms(1) by (force simp: List.map_filter_def)
  then have "t \<in> set (sortTags h (collectTags ps))"
    by (simp add: sortTags_def set_array_sort set_collectTags)
  moreover have "branchIdOf h p = js_slug h t"
    using t by (simp add: branchIdOf_def)
  ultimately show ?thesis
    by (simp add: branchMapOf_eq_None)
qed

lemma finds_enumerate: "finds h (branchMapOf L h ps) (enumerate k ps)"
  unfolding finds_def
proof (intro ballI impI)
  fix ip
  assume mem: "ip \<in> set (enumerate k ps)" and tagged: "hasTag (snd ip)"
  from mem have "snd ip \<in> snd ` set (enumerate k ps)"
    by (rule imageI)
  then have "snd ip \<in> set ps"
    by (simp flip: set_map)
  then show "branchMapOf L h ps (branchIdOf h (snd ip)) \<noteq> None"
    using tagged by (rule lookup_tagged)
qed

lemma finds_Cons: "finds h bm (ip # ips) \<Longrightarrow> finds h bm ips"
  by (simp add: finds_def)

lemma finds_member: "finds h bm ips \<Longrightarrow> (j, p) \<in> set ips \<Longrightarrow> finds h bm [(j, p)]"
  by (auto simp: finds_def)

lemma merges_found:
  assumes "finds h bm [(j, p)]"
  shows "filter is_merge (commitNodes L h bm (j, p)) =
     (if hasTag p
      then [MergeNode (''merge-'' @ slug p) ''main'' (slug p) (date p) (MAIN_X L) (rowY L j)]
      else [])"
proof (cases "hasTag p")
  case True
  then obtain br where "bm (branchIdOf h p) = Some br"
    using assms by (auto simp: finds_def)
  with True show ?thesis by (simp add: commitNodes_tagged)
next
  case False
  then show ?thesis by (simp add: commitNodes_main)
qed

lemma edges_found:
  assumes "finds h bm [(j, p)]"
  shows "commitEdges L h bm (j, p) =
     (if hasTag p
      then [\<lparr>e_id = ''edge-'' @ (''commit-'' @ branchIdOf h p @ ''-'' @ slug p) @ ''-'' @
                     (''merge-'' @ slug p),
             e_from = ''commit-'' @ branchIdOf h p @ ''-'' @ slug p,
             e_to = ''merge-'' @ slug p, e_type = MergeConnector\<rparr>]
      else [])"
proof (cases "hasTag p")
  case True
  then obtain br where "bm (branchIdOf h p) = Some br"
    using assms by (auto simp: finds_def)
  with True show ?thesis by (simp add: commitEdges_tagged)
next
  case False
  then show ?thesis by (simp add: commitEdges_main)
qed

subsection \<open>Picking the row of one record\<close>

lemma concat_pick:
  "concat (map (\<lambda>(j, p). if j = i then G j p else []) (enumerate k ps)) =
     (if k \<le> i \<and> i < k + length ps then G i (ps ! (i - k)) else [])"
proof (induction ps arbitrary: k)
  case Nil
  show ?case by auto
next
  case (Cons p ps)
  show ?case
  proof (cases "k = i")
    case True
    then show ?thesis using Cons.IH [of "Suc k"] by simp
  next
    case False
    then show ?thesis using Cons.IH [of "Suc k"] by (auto simp: Suc_diff_le)
  qed
qed

lemma rowY_inj: "ROW_HEIGHT L \<noteq> 0 \<Longrightarrow> rowY L j = rowY L i \<longleftrightarrow> j = i"
  by (simp add: rowY_def)

lemma merges_at_row_list:
  assumes "finds h bm ips" and "ROW_HEIGHT L \<noteq> 0"
  shows "filter (\<lambda>m. is_merge m \<and> n_y m = rowY L i) (concat (map (commitNodes L h bm) ips)) =
     concat (map (\<lambda>(j, p). if j = i
        then (if hasTag p
              then [MergeNode (''merge-'' @ slug p) ''main'' (slug p) (date p) (MAIN_X L) (rowY L j)]
              else [])
        else []) ips)"
  using assms(1)
proof (induction ips)
  case Nil
  show ?case by simp
next
  case (Cons ip ips)
  obtain j p where ip: "ip = (j, p)" by (cases ip)
  have f: "finds h bm [(j, p)]" using Cons.prems by (simp add: finds_def ip)
  have "filter (\<lambda>m. is_merge m \<and> n_y m = rowY L i) (commitNodes L h bm (j, p)) =
        filter (\<lambda>m. n_y m = rowY L i) (filter is_merge (commitNodes L h bm (j, p)))"
    by (simp add: conj_commute)
  also have "\<dots> = (if j = i
        then (if hasTag p
              then [MergeNode (''merge-'' @ slug p) ''main'' (slug p) (date p) (MAIN_X L) (rowY L j)]
              else [])
        else [])"
    by (simp add: merges_found [OF f] rowY_inj [OF assms(2)])
  finally show ?case
    using Cons.IH [OF finds_Cons [OF Cons.prems]] by (simp add: ip)
qed

lemma not_merge_separatorNodes: "filter (\<lambda>m. is_merge m \<and> Q m) (separatorNodes L h ps) = []"
  by (rule filter_none) (use separatorNodes_only_separators is_separator_excl in blast)

lemma not_merge_todayNodes: "filter (\<lambda>m. is_merge m \<and> Q m) (todayNodes L h ps) = []"
  by (rule filter_none) (use todayNodes_only_today is_today_excl in blast)

lemma merges_at_row:
  assumes "ROW_HEIGHT L \<noteq> 0" and "i < length (filter isPublished posts)"
  shows "filter (\<lambda>m. is_merge m \<and> n_y m = rowY L i) (nodes (mapPostsToGraphWith L h posts)) =
     (if hasTag (filter isPublished posts ! i)
      then [MergeNode (''merge-'' @ slug (filter isPublished posts ! i)) ''main''
              (slug (filter isPublished posts ! i)) (date (filter isPublished posts ! i))
              (MAIN_X L) (rowY L i)]
      else [])"
  using assms(2)
  by (simp add: nodes_mapPostsToGraphWith not_merge_separatorNodes not_merge_todayNodes
      merges_at_row_list [OF finds_enumerate assms(1)] concat_pick)

lemma commit_branches_list:
  assumes "finds h bm ips"
  shows "map (\<lambda>n. (n_slug n, n_y n, n_branch n))
           (filter is_commit (concat (map (commitNodes L h bm) ips))) =
         map (\<lambda>(j, p). (slug p, rowY L j, branchIdOf h p)) ips"
  using assms
proof (induction ips)
  case Nil
  show ?case by simp
next
  case (Cons ip ips)
  obtain j p where ip: "ip = (j, p)" by (cases ip)
  have f: "finds h bm [(j, p)]" using Cons.prems by (simp add: finds_def ip)
  have "map (\<lambda>n. (n_slug n, n_y n, n_branch n)) (filter is_commit (commitNodes L h bm (j, p))) =
        [(slug p, rowY L j, branchIdOf h p)]"
  proof (cases "hasTag p")
    case True
    then obtain br where "bm (branchIdOf h p) = Some br"
      using f by (auto simp: finds_def)
    with True show ?thesis by (simp add: commitNodes_tagged)
  next
    case False
    then have "branchIdOf h p = ''main''"
      by (auto simp: hasTag_def branchIdOf_def split: option.splits)
    with False show ?thesis by (simp add: commitNodes_main)
  qed
  then show ?case
    using Cons.IH [OF finds_Cons [OF Cons.prems]] by (simp add: ip)
qed

lemma commit_branches:
  "map (\<lambda>n. (n_slug n, n_y n, n_branch n))
     (filter is_commit (nodes (mapPostsToGraphWith L h posts))) =
   map (\<lambda>(j, p). (slug p, rowY L j, branchIdOf h p)) (enumerate 0 (filter isPublished posts))"
proof -
  let ?ps = "filter isPublished posts"
  have s: "filter is_commit (separatorNodes L h ?ps) = []"
    by (rule filter_none) (use separatorNodes_only_separators is_separator_excl in blast)
  have t: "filter is_commit (todayNodes L h ?ps) = []"
    by (rule filter_none) (use todayNodes_only_today is_today_excl in blast)
  show ?thesis
    by (simp add: nodes_mapPostsToGraphWith s t commit_branches_list [OF finds_enumerate])
qed

lemma merge_has_row:
  assumes "m \<in> set (nodes (mapPostsToGraphWith L h posts))" and "is_merge m"
  shows "\<exists>i<length (filter isPublished posts).
            hasTag (filter isPublished posts ! i) \<and> n_y m = rowY L i
          \<and> n_slug m = slug (filter isPublished posts ! i)"
proof -
  let ?ps = "filter isPublished posts"
  let ?bm = "branchMapOf L h ?ps"
  have "m \<notin> set (separatorNodes L h ?ps)" "m \<notin> set (todayNodes L h ?ps)"
    using assms(2) separatorNodes_only_separators is_separator_excl
      todayNodes_only_today is_today_excl by blast+
  with assms(1) obtain j p where jp: "(j, p) \<in> set (enumerate 0 ?ps)"
    "m \<in> set (commitNodes L h ?bm (j, p))"
    by (auto simp: nodes_mapPostsToGraphWith)
  have f: "finds h ?bm [(j, p)]"
    by (rule finds_member [OF finds_enumerate jp(1)])
  have "m \<in> set (filter is_merge (commitNodes L h ?bm (j, p)))"
    using jp(2) assms(2) by simp
  then have "hasTag p \<and> n_y m = rowY L j \<and> n_slug m = slug p"
    unfolding merges_found [OF f] by (auto split: if_splits)
  moreover have "j < length ?ps" "p = ?ps ! j"
    using jp(1) by (auto simp: in_set_enumerate_eq)
  ultimately show ?thesis by blast
qed

lemma branchIdOf_not_main: "branchIdOf h p \<noteq> ''main'' \<Longrightarrow> hasTag p"
  by (auto simp: hasTag_def branchIdOf_def split: option.splits if_splits)

lemma branchIdOf_untagged: "\<not> hasTag p \<Longrightarrow> branchIdOf h p = ''main''"
  by (auto simp: hasTag_def branchIdOf_def split: option.splits if_splits)

text \<open>
  Which records get a Merge node. The Commit of the \<open>i\<close>-th record that is not a draft
  is at \<open>y = 24 + i * 48\<close> with the branch id of the record. The Merge nodes at that
  \<open>y\<close> are exactly one, with the slug and the date of the record, when the record has a
  non-empty primary tag, and none otherwise; every Merge node is the one of such a record.
\<close>

lemma merges_iff_tagged:
  fixes h :: Host and posts :: "Post list"
  defines "ps \<equiv> filter (\<lambda>p. draft p \<noteq> Some True) posts"
  defines "ns \<equiv> nodes (mapPostsToGraph h posts)"
  shows "map (\<lambda>n. (n_slug n, n_y n, n_branch n)) (filter is_commit ns) =
           map (\<lambda>(i, p). (slug p, 24 + real i * 48, branchIdOf h p)) (enumerate 0 ps)
    \<and> (\<forall>i<length ps.
          filter (\<lambda>m. is_merge m \<and> n_y m = 24 + real i * 48) ns =
            (if hasTag (ps ! i)
             then [MergeNode (''merge-'' @ slug (ps ! i)) ''main'' (slug (ps ! i))
                     (date (ps ! i)) 150 (24 + real i * 48)]
             else []))
    \<and> (\<forall>m \<in> set ns. is_merge m \<longrightarrow>
          (\<exists>i<length ps. hasTag (ps ! i) \<and> n_y m = 24 + real i * 48 \<and> n_slug m = slug (ps ! i)))
    \<and> (\<forall>i<length ps. branchIdOf h (ps ! i) \<noteq> ''main'' \<longrightarrow> hasTag (ps ! i))
    \<and> (\<forall>i<length ps. \<not> hasTag (ps ! i) \<longrightarrow> branchIdOf h (ps ! i) = ''main'')"
proof -
  have ps: "ps = filter isPublished posts"
    by (simp add: ps_def isPublished_fun)
  have ns: "ns = nodes (mapPostsToGraphWith LAYOUT_CONSTANTS h posts)"
    by (simp add: ns_def mapPostsToGraph_def)
  have rh: "ROW_HEIGHT LAYOUT_CONSTANTS \<noteq> 0" and mx: "MAIN_X LAYOUT_CONSTANTS = 150"
    by (simp_all add: LAYOUT_CONSTANTS_def)
  have 1: "map (\<lambda>n. (n_slug n, n_y n, n_branch n)) (filter is_commit ns) =
           map (\<lambda>(i, p). (slug p, 24 + real i * 48, branchIdOf h p)) (enumerate 0 ps)"
    by (simp add: ns ps commit_branches rowY_default)
  have 2: "\<forall>i<length ps.
          filter (\<lambda>m. is_merge m \<and> n_y m = 24 + real i * 48) ns =
            (if hasTag (ps ! i)
             then [MergeNode (''merge-'' @ slug (ps ! i)) ''main'' (slug (ps ! i))
                     (date (ps ! i)) 150 (24 + real i * 48)]
             else [])"
    using merges_at_row [OF rh, of _ posts h]
    by (simp add: ns ps rowY_default mx)
  have 3: "\<forall>m \<in> set ns. is_merge m \<longrightarrow>
          (\<exists>i<length ps. hasTag (ps ! i) \<and> n_y m = 24 + real i * 48 \<and> n_slug m = slug (ps ! i))"
    using merge_has_row [of _ LAYOUT_CONSTANTS h posts]
    by (simp add: ns ps rowY_default)
  show ?thesis
    using 1 2 3 branchIdOf_not_main branchIdOf_untagged by blast
qed

subsection \<open>Evaluating the function on an example\<close>

lemma todayNodes_default:
  "todayNodes LAYOUT_CONSTANTS h ps = [TodayNode ''today-marker'' (js_todayISO h) 0 24]"
  by (simp add: todayNodes_eq computeTodayY_top LAYOUT_CONSTANTS_def)

lemma slug_ascii_examples:
  "slug_ascii ''main'' = ''main''" "slug_ascii ''a-b'' = ''a-b''" "slug_ascii ''a'' = ''a''"
  "slug_ascii ''x'' = ''x''" "slug_ascii ''y'' = ''y''"
  by code_simp+

lemma lower_examples:
  "map ascii_lower ''main'' = ''main''" "map ascii_lower ''a-b'' = ''a-b''"
  "map ascii_lower ''a'' = ''a''" "map ascii_lower ''x'' = ''x''" "map ascii_lower ''y'' = ''y''"
  by code_simp+

lemma compare_examples:
  "compare_strings ''a'' ''a-b'' = - 1" "compare_strings ''a-b'' ''a'' = 1"
  "compare_strings ''x'' ''y'' = - 1" "compare_strings ''y'' ''x'' = 1"
  by code_simp+

lemma lower_char_examples:
  "ascii_lower CHR ''x'' = CHR ''x''" "ascii_lower CHR ''y'' = CHR ''y''"
  by code_simp+

lemma more_date_examples:
  "yearOf ''2024-12-10'' = 2024" "monthOf ''2024-12-10'' = 11"
  by (simp_all add: yearOf_def monthOf_def decimal_def digit_val_def)

lemmas example_simps =
  mkPost_def exampleHost_def isPublished_def primaryTagOf_def collectTags_def set_add_def
  sortTags_def array_sort_def makeBranches_def mainBranch_def tagBranch_def getBranchColor_def
  colors_def new_Map_def branchMapOf_def commitNodes_def commitEdges_def commitStep_def
  rowY_def Let_def slug_ascii_examples lower_examples compare_examples

text \<open>
  Where no record that is not a draft has a non-empty primary tag whose slug is the
  reserved id \<open>main\<close>, the Merge nodes follow the branch of the Commit: the record at
  row \<open>i\<close> has exactly one Merge node at its \<open>y\<close>, with its slug, when its branch is
  not main, and none when it is on main.
\<close>

lemma merge_iff_branch_not_main:
  fixes h :: Host and posts :: "Post list"
  defines "ps \<equiv> filter (\<lambda>p. draft p \<noteq> Some True) posts"
  defines "ns \<equiv> nodes (mapPostsToGraph h posts)"
  assumes no_main: "\<forall>p \<in> set ps. hasTag p \<longrightarrow> branchIdOf h p \<noteq> ''main''"
  shows "\<forall>i<length ps.
          filter (\<lambda>m. is_merge m \<and> n_y m = 24 + real i * 48) ns =
            (if branchIdOf h (ps ! i) \<noteq> ''main''
             then [MergeNode (''merge-'' @ slug (ps ! i)) ''main'' (slug (ps ! i))
                     (date (ps ! i)) 150 (24 + real i * 48)]
             else [])"
proof (intro allI impI)
  fix i
  assume i: "i < length ps"
  then have "ps ! i \<in> set ps" by simp
  then have "hasTag (ps ! i) \<longleftrightarrow> branchIdOf h (ps ! i) \<noteq> ''main''"
    using no_main branchIdOf_not_main by blast
  then show "filter (\<lambda>m. is_merge m \<and> n_y m = 24 + real i * 48) ns =
            (if branchIdOf h (ps ! i) \<noteq> ''main''
             then [MergeNode (''merge-'' @ slug (ps ! i)) ''main'' (slug (ps ! i))
                     (date (ps ! i)) 150 (24 + real i * 48)]
             else [])"
    using merges_iff_tagged [where h = h and posts = posts, THEN conjunct2, THEN conjunct1,
        rule_format, of i] i
    by (simp add: ps_def ns_def)
qed

text \<open>
  C2. The function on one record whose primary tag is \<open>main\<close>: the tagged path of the
  first sweep runs, so the Commit has the branch \<open>main\<close> and the id \<open>commit-main-p\<close>, as
  the Commit of a record without a tag would, but it stands at \<open>x = 70\<close>, the rail of the
  tag, and has a Merge node at its \<open>y\<close> with its slug (and an edge to it). A Commit on
  the main branch has a paired Merge node here, against the claim.
\<close>

theorem C2_main_tag_commit_has_merge:
  "nodes (mapPostsToGraph (exampleHost ''2025-01-01'')
      [mkPost ''p'' ''2024-12-20'' [''main''] False]) =
   [CommitNode ''commit-main-p'' ''main'' ''p'' ''Title'' None ''2024-12-20'' 70 24
      ''git-commit-node'' ''p'' ''main'',
    MergeNode ''merge-p'' ''main'' ''p'' ''2024-12-20'' 150 24,
    TodayNode ''today-marker'' ''2025-01-01'' 0 24]"
  unfolding mapPostsToGraph_def nodes_mapPostsToGraphWith todayNodes_default
    separatorNodes_between
  by (simp add: example_simps) (simp add: LAYOUT_CONSTANTS_def)

section \<open>C7: edges\<close>

lemma edge_targets_list:
  assumes "finds h bm ips"
  shows "map e_to (concat (map (commitEdges L h bm) ips)) =
         map (\<lambda>p. ''merge-'' @ slug p) (filter hasTag (map snd ips))"
  using assms
proof (induction ips)
  case Nil
  show ?case by simp
next
  case (Cons ip ips)
  obtain j p where ip: "ip = (j, p)" by (cases ip)
  have f: "finds h bm [(j, p)]" using Cons.prems by (simp add: finds_def ip)
  show ?case
    using Cons.IH [OF finds_Cons [OF Cons.prems]] by (simp add: ip edges_found [OF f])
qed

lemma edge_targets:
  "map e_to (edges (mapPostsToGraphWith L h posts)) =
     map (\<lambda>p. ''merge-'' @ slug p) (filter hasTag (filter isPublished posts))"
  by (simp add: edges_mapPostsToGraphWith edge_targets_list [OF finds_enumerate])

lemma count_le_1:
  assumes "distinct (map f xs)"
  shows "length (filter (\<lambda>x. f x = k) xs) \<le> 1"
  using assms
proof (induction xs)
  case Nil
  show ?case by simp
next
  case (Cons x xs)
  show ?case
  proof (cases "f x = k")
    case True
    then have "filter (\<lambda>x. f x = k) xs = []"
      using Cons.prems by (auto simp: filter_empty_conv image_iff)
    with True show ?thesis by simp
  next
    case False
    with Cons show ?thesis by simp
  qed
qed

lemma distinct_prefixed:
  "distinct (map f xs) \<Longrightarrow> distinct (map (\<lambda>x. pre @ f x) xs)"
  by (induction xs) auto

lemma edge_has_nodes:
  assumes "e \<in> set (edges (mapPostsToGraphWith L h posts))"
  shows "e_type e = MergeConnector \<and>
    (\<exists>c m. c \<in> set (nodes (mapPostsToGraphWith L h posts))
         \<and> m \<in> set (nodes (mapPostsToGraphWith L h posts))
         \<and> is_commit c \<and> is_merge m \<and> e_from e = n_id c \<and> e_to e = n_id m
         \<and> e_id e = ''edge-'' @ n_id c @ ''-'' @ n_id m
         \<and> n_y m = n_y c \<and> n_slug m = n_slug c \<and> n_branch m = ''main'')"
proof -
  let ?ps = "filter isPublished posts"
  let ?bm = "branchMapOf L h ?ps"
  from assms obtain j p where jp: "(j, p) \<in> set (enumerate 0 ?ps)"
    "e \<in> set (commitEdges L h ?bm (j, p))"
    by (auto simp: edges_mapPostsToGraphWith)
  have f: "finds h ?bm [(j, p)]"
    by (rule finds_member [OF finds_enumerate jp(1)])
  have tagged: "hasTag p"
    using jp(2) unfolding edges_found [OF f] by (auto split: if_splits)
  then obtain br where br: "?bm (branchIdOf h p) = Some br"
    using f by (auto simp: finds_def)
  let ?c = "CommitNode (''commit-'' @ branchIdOf h p @ ''-'' @ slug p) (branchIdOf h p) (slug p)
        (title p) (summary p) (date p) (b_x br) (rowY L j) ''git-commit-node'' (slug p)
        (branchIdOf h p)"
  let ?m = "MergeNode (''merge-'' @ slug p) ''main'' (slug p) (date p) (MAIN_X L) (rowY L j)"
  have "set (commitNodes L h ?bm (j, p)) \<subseteq> set (nodes (mapPostsToGraphWith L h posts))"
    using jp(1) by (auto simp: nodes_mapPostsToGraphWith)
  then have "?c \<in> set (nodes (mapPostsToGraphWith L h posts))"
    "?m \<in> set (nodes (mapPostsToGraphWith L h posts))"
    by (auto simp: commitNodes_tagged [where bm = ?bm and h = h, OF tagged br])
  moreover have "e_type e = MergeConnector" "e_from e = n_id ?c" "e_to e = n_id ?m"
    "e_id e = ''edge-'' @ n_id ?c @ ''-'' @ n_id ?m"
    using jp(2) by (simp_all add: commitEdges_tagged [where bm = ?bm and h = h, OF tagged br])
  moreover have "is_commit ?c" "is_merge ?m" "n_y ?m = n_y ?c" "n_slug ?m = n_slug ?c"
    "n_branch ?m = ''main''"
    by simp_all
  ultimately show ?thesis by blast
qed

text \<open>
  C7, as the code has it. Every edge is a merge connector from the id of a Commit node of
  the result to the id of a Merge node of the result at the same \<open>y\<close> with the same
  slug, and its id is made of the two. When the records with a tag that are not drafts
  have pairwise distinct slugs, no node has more than one incoming edge. Without that
  condition two edges can point to one id.
\<close>

theorem C7_edges_connect_commit_to_merge:
  fixes h :: Host and posts :: "Post list"
  defines "g \<equiv> mapPostsToGraph h posts"
  shows "(\<forall>e \<in> set (edges g).
            e_type e = MergeConnector
          \<and> (\<exists>c m. c \<in> set (nodes g) \<and> m \<in> set (nodes g) \<and> is_commit c \<and> is_merge m
                 \<and> e_from e = n_id c \<and> e_to e = n_id m
                 \<and> e_id e = ''edge-'' @ n_id c @ ''-'' @ n_id m
                 \<and> n_y m = n_y c \<and> n_slug m = n_slug c \<and> n_branch m = ''main''))
    \<and> (distinct (map slug (filter hasTag (filter (\<lambda>p. draft p \<noteq> Some True) posts))) \<longrightarrow>
         (\<forall>n \<in> set (nodes g). length (filter (\<lambda>e. e_to e = n_id n) (edges g)) \<le> 1))"
proof -
  have a: "\<forall>e \<in> set (edges g).
            e_type e = MergeConnector
          \<and> (\<exists>c m. c \<in> set (nodes g) \<and> m \<in> set (nodes g) \<and> is_commit c \<and> is_merge m
                 \<and> e_from e = n_id c \<and> e_to e = n_id m
                 \<and> e_id e = ''edge-'' @ n_id c @ ''-'' @ n_id m
                 \<and> n_y m = n_y c \<and> n_slug m = n_slug c \<and> n_branch m = ''main'')"
    unfolding g_def mapPostsToGraph_def using edge_has_nodes by blast
  have b: "length (filter (\<lambda>e. e_to e = k) (edges g)) \<le> 1"
    if d: "distinct (map slug (filter hasTag (filter (\<lambda>p. draft p \<noteq> Some True) posts)))" for k
  proof -
    have "distinct (map (\<lambda>p. ''merge-'' @ slug p)
                 (filter hasTag (filter (\<lambda>p. draft p \<noteq> Some True) posts)))"
      using d by (rule distinct_prefixed)
    then have "distinct (map e_to (edges g))"
      by (simp add: g_def mapPostsToGraph_def edge_targets isPublished_fun comp_def)
    then show ?thesis by (rule count_le_1)
  qed
  show ?thesis using a b by blast
qed

theorem C7_counterexample:
  "map (\<lambda>e. (e_from e, e_to e)) (edges (mapPostsToGraph (exampleHost ''2025-01-01'')
      [mkPost ''a'' ''2024-12-20'' [''x''] False,
       mkPost ''a'' ''2024-12-10'' [''y''] False])) =
   [(''commit-x-a'', ''merge-a''), (''commit-y-a'', ''merge-a'')]
   \<and> map n_id (filter is_merge (nodes (mapPostsToGraph (exampleHost ''2025-01-01'')
      [mkPost ''a'' ''2024-12-20'' [''x''] False,
       mkPost ''a'' ''2024-12-10'' [''y''] False]))) =
   [''merge-a'', ''merge-a'']"
  unfolding mapPostsToGraph_def nodes_mapPostsToGraphWith edges_mapPostsToGraphWith
    todayNodes_default separatorNodes_between
  by (simp add: example_simps separatorBetween_def yearOf_examples monthOf_examples
      more_date_examples)

theorem C7_edges_connect_commit_to_merge_witness:
  "length (filter (\<lambda>e. e_to e = ''merge-a'')
     (edges (mapPostsToGraph (exampleHost ''2025-01-01'')
        [mkPost ''a'' ''2024-12-20'' [''x''] False,
         mkPost ''b'' ''2024-12-10'' [''y''] False]))) \<le> 1"
proof -
  let ?posts = "[mkPost ''a'' ''2024-12-20'' [''x''] False,
                 mkPost ''b'' ''2024-12-10'' [''y''] False]"
  let ?g = "mapPostsToGraph (exampleHost ''2025-01-01'') ?posts"
  have d: "distinct (map slug (filter hasTag (filter (\<lambda>p. draft p \<noteq> Some True) ?posts)))"
    by (simp add: mkPost_def hasTag_def primaryTagOf_def)
  have "nodes ?g =
     [CommitNode ''commit-x-a'' ''x'' ''a'' ''Title'' None ''2024-12-20'' (- 10) 24
        ''git-commit-node'' ''a'' ''x'',
      MergeNode ''merge-a'' ''main'' ''a'' ''2024-12-20'' 150 24,
      CommitNode ''commit-y-b'' ''y'' ''b'' ''Title'' None ''2024-12-10'' 70 72
        ''git-commit-node'' ''b'' ''y'',
      MergeNode ''merge-b'' ''main'' ''b'' ''2024-12-10'' 150 72,
      TodayNode ''today-marker'' ''2025-01-01'' 0 24]"
    unfolding mapPostsToGraph_def nodes_mapPostsToGraphWith todayNodes_default
      separatorNodes_between
    by (simp add: example_simps separatorBetween_def yearOf_examples monthOf_examples
        more_date_examples lower_char_examples) (simp add: LAYOUT_CONSTANTS_def)
  then have m: "MergeNode ''merge-a'' ''main'' ''a'' ''2024-12-20'' 150 24 \<in> set (nodes ?g)"
    by simp
  show ?thesis
    using C7_edges_connect_commit_to_merge [where h = "exampleHost ''2025-01-01''"
        and posts = ?posts, THEN conjunct2, rule_format, OF d m]
    by simp
qed

section \<open>C9: the layout constants\<close>

lemma n_id_withoutCoordinates: "n_id (withoutCoordinates n) = n_id n"
  by (cases n) simp_all

lemma shape_commitNodes:
  assumes "finds h bm [(j, p)]"
  shows "map withoutCoordinates (commitNodes L h bm (j, p)) =
     (if hasTag p
      then [CommitNode (''commit-'' @ branchIdOf h p @ ''-'' @ slug p) (branchIdOf h p) (slug p)
              (title p) (summary p) (date p) 0 0 ''git-commit-node'' (slug p) (branchIdOf h p),
            MergeNode (''merge-'' @ slug p) ''main'' (slug p) (date p) 0 0]
      else [CommitNode (''commit-main-'' @ slug p) ''main'' (slug p) (title p) (summary p)
              (date p) 0 0 ''git-commit-node'' (slug p) ''main''])"
proof (cases "hasTag p")
  case True
  then obtain br where "bm (branchIdOf h p) = Some br"
    using assms by (auto simp: finds_def)
  with True show ?thesis by (simp add: commitNodes_tagged)
next
  case False
  then show ?thesis by (simp add: commitNodes_main)
qed

lemma shape_commit_sweep:
  assumes "finds h bm ips" and "finds h bm' ips"
  shows "map withoutCoordinates (concat (map (commitNodes L h bm) ips)) =
         map withoutCoordinates (concat (map (commitNodes L' h bm') ips))"
  using assms
proof (induction ips)
  case Nil
  show ?case by simp
next
  case (Cons ip ips)
  obtain j p where ip: "ip = (j, p)" by (cases ip)
  have f: "finds h bm [(j, p)]" "finds h bm' [(j, p)]"
    using Cons.prems by (simp_all add: finds_def ip)
  show ?case
    using Cons.IH [OF finds_Cons [OF Cons.prems(1)] finds_Cons [OF Cons.prems(2)]]
    by (simp add: ip shape_commitNodes [OF f(1)] shape_commitNodes [OF f(2)])
qed

lemma edges_sweep:
  assumes "finds h bm ips" and "finds h bm' ips"
  shows "concat (map (commitEdges L h bm) ips) = concat (map (commitEdges L' h bm') ips)"
  using assms
proof (induction ips)
  case Nil
  show ?case by simp
next
  case (Cons ip ips)
  obtain j p where ip: "ip = (j, p)" by (cases ip)
  have f: "finds h bm [(j, p)]" "finds h bm' [(j, p)]"
    using Cons.prems by (simp_all add: finds_def ip)
  show ?case
    using Cons.IH [OF finds_Cons [OF Cons.prems(1)] finds_Cons [OF Cons.prems(2)]]
    by (simp add: ip edges_found [OF f(1)] edges_found [OF f(2)])
qed

lemma shape_separatorBetween:
  "map withoutCoordinates (separatorBetween L h q p i) =
   map withoutCoordinates (separatorBetween L' h q p i)"
  by (simp add: separatorBetween_def Let_def)

lemma shape_separatorNodes:
  "map withoutCoordinates (separatorNodes L h ps) =
   map withoutCoordinates (separatorNodes L' h ps)"
  unfolding separatorNodes_between map_concat map_map comp_def
  by (simp only: shape_separatorBetween [where L = L and L' = L'])

lemma todayNodes_positive:
  "0 < PADDING_TOP L \<Longrightarrow>
     todayNodes L h ps = [TodayNode ''today-marker'' (js_todayISO h) 0 (PADDING_TOP L)]"
  by (simp add: todayNodes_eq computeTodayY_top)

lemma shape_of_branches:
  "map (\<lambda>b. (b_id b, b_name b, b_color b)) (makeBranches L h ts) =
   map (\<lambda>b. (b_id b, b_name b, b_color b)) (makeBranches L' h ts)"
  by (simp add: makeBranches_def mainBranch_def tagBranch_def split_def)

text \<open>
  C9, as the code has it. For layout constants with a strictly positive \<open>PADDING_TOP\<close>
  the result differs from the result under the constants of the source in coordinates
  only: the nodes are the same up to \<open>x\<close> and \<open>y\<close> (so their ids and their number are
  the same), the edges are the same, and the branches are the same up to \<open>x\<close>. With
  \<open>PADDING_TOP\<close> zero or negative the Today marker is dropped.
\<close>

theorem C9_layout_changes_coordinates_only:
  assumes "0 < PADDING_TOP L"
  shows "map withoutCoordinates (nodes (mapPostsToGraphWith L h posts)) =
           map withoutCoordinates (nodes (mapPostsToGraph h posts))
    \<and> map n_id (nodes (mapPostsToGraphWith L h posts)) = map n_id (nodes (mapPostsToGraph h posts))
    \<and> length (nodes (mapPostsToGraphWith L h posts)) = length (nodes (mapPostsToGraph h posts))
    \<and> edges (mapPostsToGraphWith L h posts) = edges (mapPostsToGraph h posts)
    \<and> map (\<lambda>b. (b_id b, b_name b, b_color b)) (branches (mapPostsToGraphWith L h posts)) =
        map (\<lambda>b. (b_id b, b_name b, b_color b)) (branches (mapPostsToGraph h posts))"
proof -
  let ?D = LAYOUT_CONSTANTS
  let ?ps = "filter isPublished posts"
  have pt: "0 < PADDING_TOP ?D" by (simp add: LAYOUT_CONSTANTS_def)
  have a: "map withoutCoordinates (nodes (mapPostsToGraphWith L h posts)) =
           map withoutCoordinates (nodes (mapPostsToGraphWith ?D h posts))"
    using shape_commit_sweep [where L = L and L' = ?D,
        OF finds_enumerate [where L = L and h = h and ps = ?ps and k = 0]
          finds_enumerate [where L = ?D and h = h and ps = ?ps and k = 0]]
      shape_separatorNodes [where L = L and L' = ?D and h = h and ps = ?ps]
    by (simp add: nodes_mapPostsToGraphWith todayNodes_positive [OF assms]
        todayNodes_positive [OF pt])
  have b: "map n_id (nodes (mapPostsToGraphWith L h posts)) =
           map n_id (nodes (mapPostsToGraphWith ?D h posts))"
    using arg_cong [OF a, of "map n_id"]
    by (simp add: comp_def n_id_withoutCoordinates)
  have c: "length (nodes (mapPostsToGraphWith L h posts)) =
           length (nodes (mapPostsToGraphWith ?D h posts))"
    using arg_cong [OF b, of length] by simp
  have d: "edges (mapPostsToGraphWith L h posts) = edges (mapPostsToGraphWith ?D h posts)"
    using edges_sweep [where L = L and L' = ?D,
        OF finds_enumerate [where L = L and h = h and ps = ?ps and k = 0]
          finds_enumerate [where L = ?D and h = h and ps = ?ps and k = 0]]
    by (simp add: edges_mapPostsToGraphWith)
  have e: "map (\<lambda>b. (b_id b, b_name b, b_color b)) (branches (mapPostsToGraphWith L h posts)) =
        map (\<lambda>b. (b_id b, b_name b, b_color b)) (branches (mapPostsToGraphWith ?D h posts))"
    unfolding branches_mapPostsToGraphWith by (rule shape_of_branches)
  show ?thesis
    unfolding mapPostsToGraph_def using a b c d e by blast
qed

theorem C9_counterexample:
  "nodes (mapPostsToGraphWith (LAYOUT_CONSTANTS\<lparr>PADDING_TOP := 0\<rparr>)
      (exampleHost ''2025-01-01'') []) = []
   \<and> nodes (mapPostsToGraph (exampleHost ''2025-01-01'') []) =
      [TodayNode ''today-marker'' ''2025-01-01'' 0 24]"
  by (simp add: mapPostsToGraph_def mapPostsToGraphWith_def collectTags_def sortTags_def
      array_sort_def computeTodayY_def todayStep_def LAYOUT_CONSTANTS_def exampleHost_def)

theorem C9_layout_changes_coordinates_only_witness:
  "map n_id (nodes (mapPostsToGraphWith
       \<lparr>ROW_HEIGHT = 10, PADDING_TOP = 5, PADDING_BOTTOM = 0, MAIN_X = 0,
        BRANCH_SPACING = 1, LABEL_WIDTH = 0\<rparr>
       (exampleHost ''2025-01-01'')
       [mkPost ''a'' ''2024-12-20'' [''zebra''] False,
        mkPost ''b'' ''2024-11-15'' [] False])) =
   map n_id (nodes (mapPostsToGraph (exampleHost ''2025-01-01'')
       [mkPost ''a'' ''2024-12-20'' [''zebra''] False,
        mkPost ''b'' ''2024-11-15'' [] False]))"
  using C9_layout_changes_coordinates_only [where L =
       "\<lparr>ROW_HEIGHT = 10, PADDING_TOP = 5, PADDING_BOTTOM = 0, MAIN_X = 0,
        BRANCH_SPACING = 1, LABEL_WIDTH = 0\<rparr>" and h = "exampleHost ''2025-01-01''"
       and posts = "[mkPost ''a'' ''2024-12-20'' [''zebra''] False,
        mkPost ''b'' ''2024-11-15'' [] False]"]
  by simp

section \<open>C6 and C8: identifiers that collide\<close>

text \<open>
  C6. The function on two records with distinct slugs, newest first: the tag \<open>a-b\<close>
  with the slug \<open>c\<close>, and the tag \<open>a\<close> with the slug \<open>b-c\<close>. Both Commit nodes get the
  id \<open>commit-a-b-c\<close>: the ids of the nodes are not unique.
\<close>

theorem C6_duplicate_node_ids:
  "map n_id (nodes (mapPostsToGraph (exampleHost ''2025-01-01'')
      [mkPost ''c'' ''2024-12-20'' [''a-b''] False,
       mkPost ''b-c'' ''2024-12-10'' [''a''] False])) =
   [''commit-a-b-c'', ''merge-c'', ''commit-a-b-c'', ''merge-b-c'', ''today-marker'']"
  unfolding mapPostsToGraph_def nodes_mapPostsToGraphWith todayNodes_default
    separatorNodes_between
  by (simp add: example_simps separatorBetween_def yearOf_examples monthOf_examples
      more_date_examples)

text \<open>
  C8. The function on one record whose primary tag is \<open>main\<close>: the branch list has two
  branches with the id \<open>main\<close>, the reserved one and the one of the tag.
\<close>

theorem C8_two_branches_named_main:
  "branches (mapPostsToGraph (exampleHost ''2025-01-01'')
      [mkPost ''p'' ''2024-12-20'' [''main''] False]) =
   [\<lparr>b_id = ''main'', b_name = ''main'', b_color = ''#6b7280'', b_x = 150\<rparr>,
    \<lparr>b_id = ''main'', b_name = ''main'', b_color = ''#3b82f6'', b_x = 70\<rparr>]"
  unfolding mapPostsToGraph_def branches_mapPostsToGraphWith
  by (simp add: example_simps) (simp add: LAYOUT_CONSTANTS_def)

end
